theory Spec2Isabelle
  imports Main "HOL-Library.Sublist" "HOL-Library.AList"
begin

section \<open>Python values, remote entries and the outside world\<close>

text \<open>
  A \<^verbatim>\<open>datetime.datetime\<close> without time zone, as the Dropbox SDK hands it out
  (\<^verbatim>\<open>server_modified\<close>, \<^verbatim>\<open>client_modified\<close>).
\<close>

record datetime =
  year :: nat
  month :: nat
  day :: nat
  hour :: nat
  minute :: nat
  second :: nat
  microsecond :: nat

text \<open>
  The values an attribute of an entry can hold. Entries are duck-typed in the source
  (\<^verbatim>\<open>getattr(entry, 'size', None)\<close>), so an entry is the list of its attributes: a
  Dropbox \<^verbatim>\<open>FileMetadata\<close> has all four attributes, a \<^verbatim>\<open>FolderMetadata\<close> only
  \<^verbatim>\<open>path_display\<close>, and the named tuple that \<^verbatim>\<open>get\<close> builds from a queued JSON
  object has one attribute per key. Python strings are modelled with 8-bit characters.
\<close>

datatype pyval = PNone | PInt int | PStr string | PDatetime datetime

type_synonym entry = "(string \<times> pyval) list"

definition getattr :: "entry \<Rightarrow> string \<Rightarrow> pyval option" where
  "getattr e a = map_of e a"

text \<open>\<^verbatim>\<open>getattr(entry, a, default)\<close>\<close>

definition getattr_default :: "entry \<Rightarrow> string \<Rightarrow> pyval \<Rightarrow> pyval" where
  "getattr_default e a d = (case getattr e a of None \<Rightarrow> d | Some v \<Rightarrow> v)"

text \<open>Python's truth value of an object: \<^verbatim>\<open>None\<close>, \<^verbatim>\<open>0\<close> and \<^verbatim>\<open>''\<close> are false.\<close>

fun truthy :: "pyval \<Rightarrow> bool" where
  "truthy PNone = False"
| "truthy (PInt n) = (n \<noteq> 0)"
| "truthy (PStr s) = (s \<noteq> [])"
| "truthy (PDatetime d) = True"

datatype exc =
    AttributeError | TypeError | ValueError | KeyError | OSError
  | ApiError | JSONDecodeError | OverflowError

text \<open>One listing page (\<^verbatim>\<open>ListFolderResult\<close>).\<close>

record page =
  entries :: "entry list"
  has_more :: bool
  cursor :: string

text \<open>
  What the program cannot decide itself: the environment variable, the answers of the
  Dropbox service, and which calls of the operating system fail. A remote call that
  answers \<open>None\<close> raises \<^verbatim>\<open>ApiError\<close>.
\<close>

record world =
  env_token :: "string option"
  account_email :: "string option"
  files_list_folder :: "string \<Rightarrow> bool \<Rightarrow> page option"
  files_list_folder_continue :: "string \<Rightarrow> page option"
  remote_content :: "string \<Rightarrow> string option"
  makedirs_fails :: "string \<Rightarrow> bool"
  utime_fails :: "string \<Rightarrow> bool"
  timestamp :: "datetime \<Rightarrow> int option"

text \<open>Lines written to standard output, one constructor per \<^verbatim>\<open>print\<close> of the source.\<close>

datatype line =
    Msg_connected string
  | Msg_no_token
  | Msg_error exc
  | Msg_excluding string
  | Msg_listing pyval pyval pyval
  | Msg_skipping string
  | Msg_creating string
  | Msg_downloading string string
  | Msg_path pyval
  | Msg_queue_not_found

record local_file =
  content :: string
  times :: "(int \<times> int) option"

text \<open>
  The state a run works on: standard output, the persisted queues (by name), the local
  directories and files, and the class attribute \<^verbatim>\<open>FakeFileList.entries\<close>, which is
  one list for the whole process.
\<close>

record state =
  stdout :: "line list"
  queues :: "string \<rightharpoonup> string list"
  local_dirs :: "string list"
  local_files :: "string \<rightharpoonup> local_file"
  FakeFileList_entries :: "string list"

definition print :: "line \<Rightarrow> state \<Rightarrow> state" where
  "print l s = s\<lparr>stdout := stdout s @ [l]\<rparr>"

text \<open>
  How a call ends: normally with a value, by \<^verbatim>\<open>sys.exit(code)\<close>, or by an exception
  nobody catches (the interpreter then ends the process with status 1).
\<close>

datatype 'a result = Ok 'a state | Exit nat state | Raised exc state

text \<open>The parsed command line (\<^verbatim>\<open>args\<close>); \<open>opt_r\<close> is the option \<^verbatim>\<open>-r\<close>.\<close>

record args =
  dropbox_token :: "string option"
  path :: string
  opt_r :: bool
  excludePaths :: "string list"
  pushFilesToQueue :: "string option"
  src_path :: string
  dest_path :: string
  pullFilesFromQueue :: "string option"
  queueName :: "string option"
  flush :: bool


section \<open>Library functions the program calls\<close>

text \<open>\<^verbatim>\<open>str.startswith\<close> is \<^const>\<open>prefix\<close>; \<^verbatim>\<open>any(map(p.startswith, xs))\<close>:\<close>

definition excluded :: "string \<Rightarrow> string list \<Rightarrow> bool" where
  "excluded p xs = list_ex (\<lambda>x. prefix x p) xs"

text \<open>
  \<^verbatim>\<open>os.path.dirname\<close> (posixpath): the part up to the last slash, without the slashes
  that end it unless it consists of slashes only.
\<close>

definition dirname :: "string \<Rightarrow> string" where
  "dirname p =
     (let head = rev (dropWhile (\<lambda>c. c \<noteq> CHR ''/'') (rev p))
      in if head \<noteq> [] \<and> \<not> list_all (\<lambda>c. c = CHR ''/'') head
         then rev (dropWhile (\<lambda>c. c = CHR ''/'') (rev head)) else head)"

subsection \<open>Timestamps as text\<close>

definition is_digit :: "char \<Rightarrow> bool" where
  "is_digit c = (48 \<le> (of_char c :: nat) \<and> (of_char c :: nat) \<le> 57)"

definition digit_val :: "char \<Rightarrow> nat" where
  "digit_val c = of_char c - 48"

definition digit_char :: "nat \<Rightarrow> char" where
  "digit_char n = char_of (48 + n mod 10)"

text \<open>The value of a run of decimal digits, most significant first.\<close>

definition digits_val :: "string \<Rightarrow> nat" where
  "digits_val ds = foldl (\<lambda>acc c. 10 * acc + digit_val c) 0 ds"

definition pad2 :: "nat \<Rightarrow> string" where
  "pad2 n = [digit_char (n div 10), digit_char n]"

definition pad4 :: "nat \<Rightarrow> string" where
  "pad4 n = [digit_char (n div 1000), digit_char (n div 100), digit_char (n div 10), digit_char n]"

definition pad6 :: "nat \<Rightarrow> string" where
  "pad6 n = [digit_char (n div 100000), digit_char (n div 10000), digit_char (n div 1000),
             digit_char (n div 100), digit_char (n div 10), digit_char n]"

text \<open>
  \<^verbatim>\<open>datetime.isoformat()\<close> of a naive datetime: \<^verbatim>\<open>YYYY-MM-DDTHH:MM:SS\<close>, followed by
  \<^verbatim>\<open>.ffffff\<close> when the microseconds are not zero.
\<close>

definition isoformat :: "datetime \<Rightarrow> string" where
  "isoformat d =
     pad4 (year d) @ ''-'' @ pad2 (month d) @ ''-'' @ pad2 (day d) @ ''T'' @
     pad2 (hour d) @ '':'' @ pad2 (minute d) @ '':'' @ pad2 (second d) @
     (if microsecond d = 0 then [] else ''.'' @ pad6 (microsecond d))"

definition is_leap :: "nat \<Rightarrow> bool" where
  "is_leap y = (y mod 4 = 0 \<and> (y mod 100 \<noteq> 0 \<or> y mod 400 = 0))"

definition days_in_month :: "nat \<Rightarrow> nat \<Rightarrow> nat" where
  "days_in_month y m =
     (if m = 2 then (if is_leap y then 29 else 28)
      else if m = 4 \<or> m = 6 \<or> m = 9 \<or> m = 11 then 30 else 31)"

text \<open>The checks of the \<^verbatim>\<open>datetime\<close> constructor (it raises \<^verbatim>\<open>ValueError\<close>).\<close>

definition valid_datetime :: "datetime \<Rightarrow> bool" where
  "valid_datetime d =
     (1 \<le> year d \<and> year d \<le> 9999 \<and> 1 \<le> month d \<and> month d \<le> 12 \<and>
      1 \<le> day d \<and> day d \<le> days_in_month (year d) (month d) \<and>
      hour d \<le> 23 \<and> minute d \<le> 59 \<and> second d \<le> 59 \<and> microsecond d \<le> 999999)"

text \<open>
  One numeric field of \<^verbatim>\<open>strptime\<close> followed by its separator. The directives of
  \<^verbatim>\<open>'%Y-%m-%dT%H:%M:%S'\<close> are the regular expressions \<^verbatim>\<open>\d\d\d\d\<close>,
  \<^verbatim>\<open>1[0-2]|0[1-9]|[1-9]\<close>, \<^verbatim>\<open>3[0-1]|[1-2]\d|0[1-9]|[1-9]| [1-9]\<close>,
  \<^verbatim>\<open>2[0-3]|[0-1]\d|\d\<close>, \<^verbatim>\<open>[0-5]\d|\d\<close> and \<^verbatim>\<open>6[0-1]|[0-5]\d|\d\<close>; each is
  followed by a character that is no digit (or by the end), so the field is the run of
  digits before the separator and it has to match one alternative as a whole.
  \<open>field ok seps s\<close> reads the run, checks it with \<open>ok\<close> (length and value) and
  consumes one separator out of \<open>seps\<close>; with no separator given the text has to end.
\<close>

definition field :: "(nat \<Rightarrow> nat \<Rightarrow> bool) \<Rightarrow> string \<Rightarrow> string \<Rightarrow> (nat \<times> string) option" where
  "field ok seps s =
     (let ds = takeWhile is_digit s; rest = dropWhile is_digit s
      in if \<not> ok (length ds) (digits_val ds) then None
         else if seps = [] then (if rest = [] then Some (digits_val ds, []) else None)
         else (case rest of [] \<Rightarrow> None
               | c # rest' \<Rightarrow> if c \<in> set seps then Some (digits_val ds, rest') else None))"

definition ok_Y :: "nat \<Rightarrow> nat \<Rightarrow> bool" where "ok_Y n v = (n = 4)"
definition ok_m :: "nat \<Rightarrow> nat \<Rightarrow> bool" where
  "ok_m n v = ((n = 1 \<or> n = 2) \<and> 1 \<le> v \<and> v \<le> 12)"
definition ok_d :: "nat \<Rightarrow> nat \<Rightarrow> bool" where
  "ok_d n v = ((n = 1 \<or> n = 2) \<and> 1 \<le> v \<and> v \<le> 31)"
definition ok_H :: "nat \<Rightarrow> nat \<Rightarrow> bool" where
  "ok_H n v = (n = 1 \<or> n = 2 \<and> v \<le> 23)"
definition ok_M :: "nat \<Rightarrow> nat \<Rightarrow> bool" where
  "ok_M n v = (n = 1 \<or> n = 2 \<and> v \<le> 59)"
definition ok_S :: "nat \<Rightarrow> nat \<Rightarrow> bool" where
  "ok_S n v = (n = 1 \<or> n = 2 \<and> v \<le> 61)"

text \<open>
  \<^verbatim>\<open>datetime.strptime(s, '%Y-%m-%dT%H:%M:%S')\<close>; \<open>None\<close> is its \<^verbatim>\<open>ValueError\<close>. The
  day may be written as a space and one digit, and the \<^verbatim>\<open>T\<close> is matched without
  regard to case, as the library does.
\<close>

definition strptime :: "string \<Rightarrow> datetime option" where
  "strptime s =
     (case field ok_Y ''-'' s of None \<Rightarrow> None | Some (Y, s1) \<Rightarrow>
      case field ok_m ''-'' s1 of None \<Rightarrow> None | Some (m, s2) \<Rightarrow>
      case field ok_d ''Tt'' (case s2 of c # s2' \<Rightarrow> if c = CHR '' '' \<and> length (takeWhile is_digit s2') = 1
                                           then s2' else s2 | [] \<Rightarrow> s2) of None \<Rightarrow> None | Some (d, s3) \<Rightarrow>
      case field ok_H '':'' s3 of None \<Rightarrow> None | Some (H, s4) \<Rightarrow>
      case field ok_M '':'' s4 of None \<Rightarrow> None | Some (M, s5) \<Rightarrow>
      case field ok_S [] s5 of None \<Rightarrow> None | Some (S, _) \<Rightarrow>
        (let dt = \<lparr>year = Y, month = m, day = d, hour = H, minute = M, second = S,
                   microsecond = 0\<rparr>
         in if valid_datetime dt then Some dt else None))"


subsection \<open>JSON text\<close>

text \<open>
  \<^verbatim>\<open>json.dumps\<close> and \<^verbatim>\<open>json.loads\<close>, for the documents this program exchanges: an
  object whose values are strings, integers or \<^verbatim>\<open>null\<close>, or one such value alone.
  Arrays, nested objects, floats, booleans and \<^verbatim>\<open>\u\<close> escapes above \<^verbatim>\<open>00ff\<close> lie
  outside the model (\<^verbatim>\<open>json_loads\<close> answers \<open>None\<close> there).
  \<^verbatim>\<open>json.dumps\<close> writes ASCII only (\<^verbatim>\<open>ensure_ascii\<close>), so \<^verbatim>\<open>str.encode\<close> and
  \<^verbatim>\<open>bytes.decode\<close> leave its text as it is, and a queued blob is modelled by its text.
\<close>

definition hex_char :: "nat \<Rightarrow> char" where
  "hex_char n = (if n mod 16 < 10 then char_of (48 + n mod 16) else char_of (87 + n mod 16))"

definition hex_val :: "char \<Rightarrow> nat option" where
  "hex_val c =
     (let n = (of_char c :: nat)
      in if 48 \<le> n \<and> n \<le> 57 then Some (n - 48)
         else if 97 \<le> n \<and> n \<le> 102 then Some (n - 87)
         else if 65 \<le> n \<and> n \<le> 70 then Some (n - 55)
         else None)"

text \<open>
  One character of a JSON string as \<^verbatim>\<open>json.dumps\<close> writes it: the short escapes,
  the character itself from the space to the tilde, \<^verbatim>\<open>\u00xx\<close> otherwise.
\<close>

definition escape_char :: "char \<Rightarrow> string" where
  "escape_char c =
     (if c = CHR ''\"'' then [CHR 0x5C, CHR ''\"'']
      else if c = CHR 0x5C then [CHR 0x5C, CHR 0x5C]
      else if c = CHR 0x0A then [CHR 0x5C, CHR ''n'']
      else if c = CHR 0x0D then [CHR 0x5C, CHR ''r'']
      else if c = CHR 0x09 then [CHR 0x5C, CHR ''t'']
      else if c = CHR 0x08 then [CHR 0x5C, CHR ''b'']
      else if c = CHR 0x0C then [CHR 0x5C, CHR ''f'']
      else if 32 \<le> (of_char c :: nat) \<and> (of_char c :: nat) \<le> 126 then [c]
      else [CHR 0x5C, CHR ''u'', CHR ''0'', CHR ''0'',
            hex_char (of_char c div 16), hex_char (of_char c)])"

definition encode_basestring_ascii :: "string \<Rightarrow> string" where
  "encode_basestring_ascii t = [CHR ''\"''] @ concat (map escape_char t) @ [CHR ''\"'']"

text \<open>The decimal text of an integer (\<^verbatim>\<open>int.__repr__\<close>).\<close>

fun nat_digits :: "nat \<Rightarrow> string" where
  "nat_digits n = (if n < 10 then [digit_char n] else nat_digits (n div 10) @ [digit_char n])"

definition int_repr :: "int \<Rightarrow> string" where
  "int_repr i = (if i < 0 then CHR ''-'' # nat_digits (nat (- i)) else nat_digits (nat i))"

text \<open>
  \<^verbatim>\<open>json.decoder.scanstring\<close> after the opening quote: the text up to the closing quote
  and what follows it. A control character inside the string is an error.
\<close>

definition unescape :: "char \<Rightarrow> char option" where
  "unescape e =
     (if e = CHR ''\"'' then Some (CHR ''\"'')
      else if e = CHR 0x5C then Some (CHR 0x5C)
      else if e = CHR ''/'' then Some (CHR ''/'')
      else if e = CHR ''b'' then Some (CHR 0x08)
      else if e = CHR ''f'' then Some (CHR 0x0C)
      else if e = CHR ''n'' then Some (CHR 0x0A)
      else if e = CHR ''r'' then Some (CHR 0x0D)
      else if e = CHR ''t'' then Some (CHR 0x09)
      else None)"

definition hex4 :: "char \<Rightarrow> char \<Rightarrow> char \<Rightarrow> char \<Rightarrow> nat option" where
  "hex4 a b c d =
     (case (hex_val a, hex_val b, hex_val c, hex_val d) of
        (Some x, Some y, Some z, Some u) \<Rightarrow> Some (4096 * x + 256 * y + 16 * z + u)
      | _ \<Rightarrow> None)"

definition cons_str :: "char \<Rightarrow> (string \<times> string) option \<Rightarrow> (string \<times> string) option" where
  "cons_str c r = (case r of None \<Rightarrow> None | Some (t, rest) \<Rightarrow> Some (c # t, rest))"

fun scanstring :: "string \<Rightarrow> (string \<times> string) option" where
  "scanstring [] = None"
| "scanstring (c # cs) =
     (if c = CHR ''\"'' then Some ([], cs)
      else if c = CHR 0x5C then
        (case cs of
           [] \<Rightarrow> None
         | e # cs' \<Rightarrow>
             if e = CHR ''u'' then
               (case cs' of
                  h1 # h2 # h3 # h4 # rest \<Rightarrow>
                    (case hex4 h1 h2 h3 h4 of
                       None \<Rightarrow> None
                     | Some n \<Rightarrow> if n < 256 then cons_str (char_of n) (scanstring rest) else None)
                | _ \<Rightarrow> None)
             else (case unescape e of None \<Rightarrow> None | Some x \<Rightarrow> cons_str x (scanstring cs')))
      else if (of_char c :: nat) < 32 then None
      else cons_str c (scanstring cs))"

text \<open>A JSON integer: \<^verbatim>\<open>-?(0|[1-9]\d*)\<close>, not followed by a fraction or an exponent.\<close>

definition scan_int :: "string \<Rightarrow> (int \<times> string) option" where
  "scan_int s =
     (let neg = (case s of c # _ \<Rightarrow> c = CHR ''-'' | [] \<Rightarrow> False);
          s1 = (if neg then tl s else s);
          ds = (case s1 of c # _ \<Rightarrow> if c = CHR ''0'' then [c] else takeWhile is_digit s1 | [] \<Rightarrow> []);
          rest = drop (length ds) s1
      in if ds = [] then None
         else if rest \<noteq> [] \<and> hd rest \<in> set ''.eE'' then None
         else Some (if neg then - int (digits_val ds) else int (digits_val ds), rest))"

definition skip_ws :: "string \<Rightarrow> string" where
  "skip_ws s = dropWhile (\<lambda>c. c \<in> set [CHR '' '', CHR 0x09, CHR 0x0A, CHR 0x0D]) s"

definition scan_value :: "string \<Rightarrow> (pyval \<times> string) option" where
  "scan_value s =
     (case s of
        [] \<Rightarrow> None
      | c # cs \<Rightarrow>
          if c = CHR ''\"'' then map_option (\<lambda>(t, rest). (PStr t, rest)) (scanstring cs)
          else if take 4 s = ''null'' then Some (PNone, drop 4 s)
          else map_option (\<lambda>(i, rest). (PInt i, rest)) (scan_int s))"

text \<open>
  The members of an object, from the quote of the first key to the closing brace. The
  first argument bounds the number of members (each takes at least one character).
\<close>

fun scan_members :: "nat \<Rightarrow> string \<Rightarrow> ((string \<times> pyval) list \<times> string) option" where
  "scan_members 0 s = None"
| "scan_members (Suc n) s =
     (case s of
        [] \<Rightarrow> None
      | q # cs \<Rightarrow>
          if q \<noteq> CHR ''\"'' then None
          else (case scanstring cs of
             None \<Rightarrow> None
           | Some (k, s1) \<Rightarrow>
             (case skip_ws s1 of
                [] \<Rightarrow> None
              | c # s2 \<Rightarrow>
                  if c \<noteq> CHR '':'' then None
                  else (case scan_value (skip_ws s2) of
                     None \<Rightarrow> None
                   | Some (v, s3) \<Rightarrow>
                     (case skip_ws s3 of
                        [] \<Rightarrow> None
                      | d # s4 \<Rightarrow>
                          if d = CHR ''}'' then Some ([(k, v)], s4)
                          else if d = CHR '','' then
                            map_option (\<lambda>(kvs, rest). ((k, v) # kvs, rest))
                              (scan_members n (skip_ws s4))
                          else None)))))"

datatype json = Scalar pyval | Object "(string \<times> pyval) list"

text \<open>A Python \<^verbatim>\<open>dict\<close> built from the members in order: a repeated key keeps its place and takes the later value.\<close>

definition dict_of :: "(string \<times> pyval) list \<Rightarrow> (string \<times> pyval) list" where
  "dict_of kvs = foldl (\<lambda>d (k, v). AList.update k v d) [] kvs"

definition json_loads :: "string \<Rightarrow> json option" where
  "json_loads text =
     (let s = skip_ws text;
          r = (case s of
                 [] \<Rightarrow> None
               | c # s1 \<Rightarrow>
                   if c = CHR ''{'' then
                     (case skip_ws s1 of
                        [] \<Rightarrow> None
                      | d # s2 \<Rightarrow>
                          if d = CHR ''}'' then Some (Object [], s2)
                          else map_option (\<lambda>(kvs, rest). (Object (dict_of kvs), rest))
                                 (scan_members (length s1) (skip_ws s1)))
                   else map_option (\<lambda>(v, rest). (Scalar v, rest)) (scan_value s))
      in case r of
           None \<Rightarrow> None
         | Some (v, rest) \<Rightarrow> if skip_ws rest = [] then Some v else None)"

text \<open>\<^verbatim>\<open>json.dumps\<close> of a dictionary; \<open>None\<close> is the \<^verbatim>\<open>TypeError\<close> for a value that is not serializable.\<close>

definition dumps_value :: "pyval \<Rightarrow> string option" where
  "dumps_value v =
     (case v of
        PNone \<Rightarrow> Some ''null''
      | PInt i \<Rightarrow> Some (int_repr i)
      | PStr t \<Rightarrow> Some (encode_basestring_ascii t)
      | PDatetime d \<Rightarrow> None)"

fun dumps_members :: "(string \<times> pyval) list \<Rightarrow> string option" where
  "dumps_members [] = Some []"
| "dumps_members ((k, v) # kvs) =
     (case dumps_value v of
        None \<Rightarrow> None
      | Some t \<Rightarrow>
          (case dumps_members kvs of
             None \<Rightarrow> None
           | Some ts \<Rightarrow>
               Some (encode_basestring_ascii k @ '': '' @ t @ (if kvs = [] then [] else '', '' @ ts))))"

definition json_dumps :: "(string \<times> pyval) list \<Rightarrow> string option" where
  "json_dumps d = map_option (\<lambda>ms. ''{'' @ ms @ ''}'') (dumps_members d)"


text \<open>
  The characters that \<^verbatim>\<open>str.encode\<close> (UTF-8) writes as the one byte of the same value.
\<close>

definition ascii :: "char \<Rightarrow> bool" where
  "ascii c = ((of_char c :: nat) < 128)"

text \<open>What may follow a number, and what follows a value inside an object.\<close>

definition ends_number :: "string \<Rightarrow> bool" where
  "ends_number rest = (case rest of [] \<Rightarrow> True | c # _ \<Rightarrow> \<not> is_digit c \<and> c \<notin> set ''.eE'')"

definition ends_value :: "string \<Rightarrow> bool" where
  "ends_value rest = (case rest of [] \<Rightarrow> True | c # _ \<Rightarrow> c = CHR '','' \<or> c = CHR ''}'')"


subsection \<open>The local file system\<close>

definition path_exists :: "state \<Rightarrow> string \<Rightarrow> bool" where
  "path_exists s p = (p \<in> set (local_dirs s) \<or> local_files s p \<noteq> None)"

text \<open>The directory itself and the directories above it, nearest first.\<close>

fun dir_chain :: "nat \<Rightarrow> string \<Rightarrow> string list" where
  "dir_chain 0 p = []"
| "dir_chain (Suc n) p =
     (if p = [] \<or> list_all (\<lambda>c. c = CHR ''/'') p then [] else p # dir_chain n (dirname p))"

text \<open>
  \<^verbatim>\<open>os.makedirs(p)\<close>: creates \<open>p\<close> and every missing directory above it; \<open>None\<close> is
  an \<^verbatim>\<open>OSError\<close> (the empty path, or a refusal of the operating system).
\<close>

definition makedirs :: "world \<Rightarrow> string \<Rightarrow> state \<Rightarrow> state option" where
  "makedirs w p s =
     (if p = [] \<or> makedirs_fails w p then None
      else Some (s\<lparr>local_dirs :=
        local_dirs s @ filter (\<lambda>d. d \<notin> set (local_dirs s)) (rev (dir_chain (length p) p))\<rparr>))"

text \<open>\<^verbatim>\<open>dbx.files_download_to_file(path=src, download_path=dest)\<close>\<close>

definition download_to_file :: "world \<Rightarrow> string \<Rightarrow> string \<Rightarrow> state \<Rightarrow> state option" where
  "download_to_file w src dest s =
     (case remote_content w src of None \<Rightarrow> None
      | Some c \<Rightarrow> Some (s\<lparr>local_files := (local_files s)(dest \<mapsto> \<lparr>content = c, times = None\<rparr>)\<rparr>))"

text \<open>\<^verbatim>\<open>os.utime(path=dest, times=(atime, mtime))\<close>\<close>

definition utime :: "world \<Rightarrow> string \<Rightarrow> int \<times> int \<Rightarrow> state \<Rightarrow> state option" where
  "utime w dest tm s =
     (case local_files s dest of None \<Rightarrow> None
      | Some f \<Rightarrow> if utime_fails w dest then None
                  else Some (s\<lparr>local_files := (local_files s)(dest \<mapsto> f\<lparr>times := Some tm\<rparr>)\<rparr>))"

section \<open>The Work Queue\<close>

text \<open>
  The queue is the class \<^verbatim>\<open>FifoDiskQueue\<close> of the package \<^verbatim>\<open>queuelib\<close>, which the
  program imports; its code is not in the repository. The definitions of this section
  follow the contract the spec gives for it (Work Queue, sections 3 and 4.1).
\<close>

text \<open>
  Modelled from the spec: the queue handle of \<^verbatim>\<open>FifoDiskQueue\<close> (missing from the
  sources). A handle addresses the persisted sequence of its name (\<^const>\<open>queues\<close> in the
  state) and holds the pushes that are buffered in memory until \<^verbatim>\<open>close\<close>.
\<close>

record queue_handle =
  qname :: string
  buffered :: "string list"

text \<open>
  Modelled from the spec: the persisted sequence of a name (missing from the sources);
  a name without storage has no items.
\<close>

definition persisted :: "state \<Rightarrow> string \<Rightarrow> string list" where
  "persisted s name = (case queues s name of None \<Rightarrow> [] | Some bs \<Rightarrow> bs)"

text \<open>
  Modelled from the spec: \<^verbatim>\<open>open(name)\<close>, the constructor \<^verbatim>\<open>FifoDiskQueue(name)\<close>
  (missing from the sources): it creates the storage if absent, else resumes the
  existing sequence.
\<close>

definition queue_open :: "string \<Rightarrow> state \<Rightarrow> queue_handle \<times> state" where
  "queue_open name s =
     (\<lparr>qname = name, buffered = []\<rparr>, s\<lparr>queues := (queues s)(name \<mapsto> persisted s name)\<rparr>)"

text \<open>
  Modelled from the spec: \<^verbatim>\<open>push(handle, blob)\<close> (missing from the sources): appends
  one blob at the tail; it may buffer in memory until \<^verbatim>\<open>close\<close>.
\<close>

definition queue_push :: "queue_handle \<Rightarrow> string \<Rightarrow> queue_handle" where
  "queue_push h blob = h\<lparr>buffered := buffered h @ [blob]\<rparr>"

text \<open>
  Modelled from the spec: \<^verbatim>\<open>pop(handle)\<close> (missing from the sources): removes and
  returns the head, or signals that the queue is empty, without error. The head is
  the first persisted item, and the first buffered one when nothing is persisted.
\<close>

definition queue_pop :: "queue_handle \<Rightarrow> state \<Rightarrow> string option \<times> queue_handle \<times> state" where
  "queue_pop h s =
     (case persisted s (qname h) of
        x # xs \<Rightarrow> (Some x, h, s\<lparr>queues := (queues s)(qname h \<mapsto> xs)\<rparr>)
      | [] \<Rightarrow>
         (case buffered h of
            x # xs \<Rightarrow> (Some x, h\<lparr>buffered := xs\<rparr>, s)
          | [] \<Rightarrow> (None, h, s)))"

text \<open>
  Modelled from the spec: \<^verbatim>\<open>close(handle)\<close> (missing from the sources): flushes all
  buffered pushes to durable storage.
\<close>

definition queue_close :: "queue_handle \<Rightarrow> state \<Rightarrow> state" where
  "queue_close h s = s\<lparr>queues := (queues s)(qname h \<mapsto> persisted s (qname h) @ buffered h)\<rparr>"

text \<open>
  Modelled from the spec: the number of items a handle sees, \<^verbatim>\<open>len(queue)\<close> (missing
  from the sources). Python takes the truth value of an object that has a length from
  it, so \<^verbatim>\<open>if queue:\<close> and \<^verbatim>\<open>if not queue:\<close> ask whether the queue has an item.
\<close>

definition queue_len :: "queue_handle \<Rightarrow> state \<Rightarrow> nat" where
  "queue_len h s = length (persisted s (qname h)) + length (buffered h)"

text \<open>\<^verbatim>\<open>get_queue(name)\<close>\<close>

definition get_queue :: "string \<Rightarrow> state \<Rightarrow> queue_handle \<times> state" where
  "get_queue name s = queue_open name s"

section \<open>The Transfer Executor: \<^verbatim>\<open>copy_dropbox_file\<close>\<close>

text \<open>
  \<^verbatim>\<open>if type(v) is str: v = datetime.strptime(v, '%Y-%m-%dT%H:%M:%S')\<close>
\<close>

definition parse_if_str :: "pyval \<Rightarrow> exc + pyval" where
  "parse_if_str v =
     (case v of
        PStr t \<Rightarrow> (case strptime t of None \<Rightarrow> Inl ValueError | Some d \<Rightarrow> Inr (PDatetime d))
      | _ \<Rightarrow> Inr v)"

text \<open>\<^verbatim>\<open>v.timestamp()\<close>: only a datetime has the method.\<close>

definition py_timestamp :: "world \<Rightarrow> pyval \<Rightarrow> exc + int" where
  "py_timestamp w v =
     (case v of
        PDatetime d \<Rightarrow> (case timestamp w d of None \<Rightarrow> Inl OverflowError | Some t \<Rightarrow> Inr t)
      | _ \<Rightarrow> Inl AttributeError)"

text \<open>
  The body of the last \<^verbatim>\<open>try\<close> block up to the arguments of \<^verbatim>\<open>os.utime\<close>, in the
  order of the source: both attributes are read, both are parsed, both are converted.
\<close>

definition entry_times :: "world \<Rightarrow> entry \<Rightarrow> exc + (int \<times> int)" where
  "entry_times w e =
     (case getattr e ''server_modified'' of None \<Rightarrow> Inl AttributeError | Some sm \<Rightarrow>
      case getattr e ''client_modified'' of None \<Rightarrow> Inl AttributeError | Some cm \<Rightarrow>
      case parse_if_str sm of Inl x \<Rightarrow> Inl x | Inr modified \<Rightarrow>
      case parse_if_str cm of Inl x \<Rightarrow> Inl x | Inr cModified \<Rightarrow>
      case py_timestamp w modified of Inl x \<Rightarrow> Inl x | Inr a \<Rightarrow>
      case py_timestamp w cModified of Inl x \<Rightarrow> Inl x | Inr m \<Rightarrow> Inr (a, m))"

text \<open>The three \<^verbatim>\<open>try\<close> blocks; each \<^verbatim>\<open>except\<close> prints the error and calls \<^verbatim>\<open>sys.exit(1)\<close>.\<close>

definition set_times :: "world \<Rightarrow> entry \<Rightarrow> string \<Rightarrow> args \<Rightarrow> state \<Rightarrow> args result" where
  "set_times w e dest a s =
     (case entry_times w e of
        Inl x \<Rightarrow> Exit 1 (print (Msg_error x) s)
      | Inr tm \<Rightarrow>
          (case utime w dest tm s of
             None \<Rightarrow> Exit 1 (print (Msg_error OSError) s)
           | Some s' \<Rightarrow> Ok a s'))"

definition download :: "world \<Rightarrow> entry \<Rightarrow> string \<Rightarrow> string \<Rightarrow> args \<Rightarrow> state \<Rightarrow> args result" where
  "download w e src dest a s =
     (let s1 = print (Msg_downloading src dest) s
      in case download_to_file w src dest s1 of
           None \<Rightarrow> Exit 1 (print (Msg_error ApiError) s1)
         | Some s2 \<Rightarrow> set_times w e dest a s2)"

text \<open>The first \<^verbatim>\<open>try\<close> block; \<open>Inl\<close> is the state in which the exception was raised.\<close>

definition make_local_dir :: "world \<Rightarrow> string \<Rightarrow> state \<Rightarrow> state + state" where
  "make_local_dir w local_dir s =
     (if \<not> path_exists s local_dir
      then (let s1 = print (Msg_creating local_dir) s
            in case makedirs w local_dir s1 of None \<Rightarrow> Inl s1 | Some s2 \<Rightarrow> Inr s2)
      else Inr s)"

text \<open>
  \<^verbatim>\<open>copy_dropbox_file(args, entry, dbx)\<close>. It assigns to \<^verbatim>\<open>args.src_path\<close>, so the
  arguments are returned. Reading \<^verbatim>\<open>path_display\<close> from an entry without it, or
  calling \<^verbatim>\<open>startswith\<close> on a value that is no string, raises outside every
  \<^verbatim>\<open>try\<close> block.
\<close>

definition copy_dropbox_file :: "world \<Rightarrow> args \<Rightarrow> entry \<Rightarrow> state \<Rightarrow> args result" where
  "copy_dropbox_file w a e s =
     (if \<not> truthy (getattr_default e ''size'' PNone) then
        (case getattr e ''path_display'' of
           None \<Rightarrow> Raised AttributeError s
         | Some (PStr p) \<Rightarrow> Ok a (print (Msg_skipping p) s)
         | Some _ \<Rightarrow> Raised TypeError s)
      else
        (case getattr e ''path_display'' of
           Some (PStr p) \<Rightarrow>
             if excluded p (excludePaths a) then Ok a (print (Msg_excluding p) s)
             else
               (let a' = (if src_path a = ''/'' then a\<lparr>src_path := []\<rparr> else a);
                    local_dir = dirname (dest_path a' @ p)
                in case make_local_dir w local_dir s of
                     Inl s1 \<Rightarrow> Exit 1 (print (Msg_error OSError) s1)
                   | Inr s1 \<Rightarrow> download w e p (dest_path a' @ p) a' s1)
         | _ \<Rightarrow> Raised AttributeError s))"

section \<open>The commands\<close>

text \<open>\<^verbatim>\<open>connect_to_dropbox(args)\<close>\<close>

definition connect_to_dropbox :: "world \<Rightarrow> args \<Rightarrow> state \<Rightarrow> unit result" where
  "connect_to_dropbox w a s =
     (let token = (case dropbox_token a of
                     Some t \<Rightarrow> if t \<noteq> [] then Some t else env_token w
                   | None \<Rightarrow> env_token w)
      in if token = None \<or> token = Some [] then Exit 1 (print Msg_no_token s)
         else (case account_email w of
                 None \<Rightarrow> Exit 1 (print (Msg_error ApiError) s)
               | Some email \<Rightarrow> Ok () (print (Msg_connected email) s)))"

subsection \<open>The Enumerator: \<^verbatim>\<open>ls\<close>\<close>

text \<open>\<^verbatim>\<open>json_serial(obj)\<close>: the ISO text of a datetime, \<^verbatim>\<open>TypeError\<close> for anything else.\<close>

definition json_serial :: "pyval \<Rightarrow> exc + pyval" where
  "json_serial obj = (case obj of PDatetime d \<Rightarrow> Inr (PStr (isoformat d)) | _ \<Rightarrow> Inl TypeError)"

text \<open>
  The lines that build the \<^verbatim>\<open>FakeFile\<close> and serialize its \<^verbatim>\<open>__dict__\<close>: the four
  attributes assigned on the instance, in the order of the assignments.
\<close>

definition work_item :: "entry \<Rightarrow> exc + string" where
  "work_item e =
     (case getattr e ''path_display'' of None \<Rightarrow> Inl AttributeError | Some p \<Rightarrow>
      case getattr e ''size'' of None \<Rightarrow> Inl AttributeError | Some n \<Rightarrow>
      case getattr e ''server_modified'' of None \<Rightarrow> Inl AttributeError | Some sm \<Rightarrow>
      case json_serial sm of Inl x \<Rightarrow> Inl x | Inr sm' \<Rightarrow>
      case getattr e ''client_modified'' of None \<Rightarrow> Inl AttributeError | Some cm \<Rightarrow>
      case json_serial cm of Inl x \<Rightarrow> Inl x | Inr cm' \<Rightarrow>
      case json_dumps [(''path_display'', p), (''size'', n),
                       (''server_modified'', sm'), (''client_modified'', cm')] of
        None \<Rightarrow> Inl TypeError
      | Some text \<Rightarrow> Inr text)"

text \<open>
  The body of the \<^verbatim>\<open>for\<close> loop of \<^verbatim>\<open>ls\<close> for one entry. \<^verbatim>\<open>sizeof_fmt\<close> needs a
  number (\<^verbatim>\<open>abs(num)\<close>); the text it produces is not modelled, the line keeps the three
  values it is formatted from.
\<close>

definition ls_entry :: "args \<Rightarrow> entry \<Rightarrow> queue_handle option \<Rightarrow> state \<Rightarrow> (queue_handle option) result" where
  "ls_entry a e queue s =
     (case getattr e ''path_display'' of
        Some (PStr p) \<Rightarrow>
          if excluded p (excludePaths a) then Ok queue (print (Msg_excluding p) s)
          else
            (case getattr_default e ''size'' (PInt 0) of
               PInt n \<Rightarrow>
                 (let s1 = print (Msg_listing (PInt n)
                             (getattr_default e ''client_modified'' (PStr ''-'')) (PStr p)) s
                  in case queue of
                       None \<Rightarrow> Ok queue s1
                     | Some h \<Rightarrow>
                         if getattr_default e ''size'' PNone \<noteq> PNone then
                           (case work_item e of
                              Inl x \<Rightarrow> Raised x s1
                            | Inr blob \<Rightarrow> Ok (Some (queue_push h blob)) s1)
                         else Ok queue s1)
             | _ \<Rightarrow> Raised TypeError s)
      | _ \<Rightarrow> Raised AttributeError s)"

fun ls_entries :: "args \<Rightarrow> entry list \<Rightarrow> queue_handle option \<Rightarrow> state \<Rightarrow> (queue_handle option) result" where
  "ls_entries a [] queue s = Ok queue s"
| "ls_entries a (e # es) queue s =
     (case ls_entry a e queue s of
        Ok queue' s' \<Rightarrow> ls_entries a es queue' s'
      | Exit c s' \<Rightarrow> Exit c s'
      | Raised x s' \<Rightarrow> Raised x s')"

text \<open>\<^verbatim>\<open>if queue: queue.close()\<close>\<close>

definition close_if_queue :: "queue_handle option \<Rightarrow> state \<Rightarrow> state" where
  "close_if_queue queue s =
     (case queue of
        None \<Rightarrow> s
      | Some h \<Rightarrow> if 0 < queue_len h s then queue_close h s else s)"

text \<open>
  The \<^verbatim>\<open>while True\<close> loop of \<^verbatim>\<open>ls\<close>, one round per page. The service decides how
  many pages there are, so the rounds are counted down from a supply; \<open>None\<close> means that
  the supply did not suffice.
\<close>

fun ls_loop :: "nat \<Rightarrow> world \<Rightarrow> args \<Rightarrow> page \<Rightarrow> state \<Rightarrow> unit result option" where
  "ls_loop 0 w a files s = None"
| "ls_loop (Suc n) w a files s =
     (let (queue, s1) =
            (case pushFilesToQueue a of
               None \<Rightarrow> (None, s)
             | Some name \<Rightarrow>
                 if name = [] then (None, s)
                 else (let (h, s') = get_queue name s in (Some h, s')))
      in case ls_entries a (entries files) queue s1 of
           Exit c s' \<Rightarrow> Some (Exit c s')
         | Raised x s' \<Rightarrow> Some (Raised x s')
         | Ok queue' s2 \<Rightarrow>
             if has_more files then
               (case files_list_folder_continue w (cursor files) of
                  None \<Rightarrow> Some (Raised ApiError s2)
                | Some files' \<Rightarrow> ls_loop n w a files' (close_if_queue queue' s2))
             else Some (Ok () (close_if_queue queue' s2)))"

definition ls :: "nat \<Rightarrow> world \<Rightarrow> args \<Rightarrow> state \<Rightarrow> unit result option" where
  "ls n w a s =
     (case connect_to_dropbox w a s of
        Exit c s' \<Rightarrow> Some (Exit c s')
      | Raised x s' \<Rightarrow> Some (Raised x s')
      | Ok _ s1 \<Rightarrow>
          (let a' = (if path a = ''/'' then a\<lparr>path := []\<rparr> else a)
           in case files_list_folder w (path a') (opt_r a') of
                None \<Rightarrow> Some (Raised ApiError s1)
              | Some files \<Rightarrow> ls_loop n w a' files s1))"

subsection \<open>The Transfer Consumer: \<^verbatim>\<open>get\<close>\<close>

text \<open>
  The names \<^verbatim>\<open>namedtuple\<close> accepts as fields: identifiers that do not start with an
  underscore and are no keywords.
\<close>

definition is_alpha :: "char \<Rightarrow> bool" where
  "is_alpha c = (let n = (of_char c :: nat) in (65 \<le> n \<and> n \<le> 90) \<or> (97 \<le> n \<and> n \<le> 122))"

definition kwlist :: "string list" where
  "kwlist = [''False'', ''None'', ''True'', ''and'', ''as'', ''assert'', ''async'', ''await'',
     ''break'', ''class'', ''continue'', ''def'', ''del'', ''elif'', ''else'', ''except'',
     ''finally'', ''for'', ''from'', ''global'', ''if'', ''import'', ''in'', ''is'', ''lambda'',
     ''nonlocal'', ''not'', ''or'', ''pass'', ''raise'', ''return'', ''try'', ''while'', ''with'',
     ''yield'']"

definition field_name_ok :: "string \<Rightarrow> bool" where
  "field_name_ok k =
     (case k of
        [] \<Rightarrow> False
      | c # cs \<Rightarrow> is_alpha c \<and> list_all (\<lambda>x. is_alpha x \<or> is_digit x \<or> x = CHR ''_'') cs
                 \<and> k \<notin> set kwlist)"

text \<open>
  \<^verbatim>\<open>json.loads(entry, object_hook=lambda d: namedtuple('X', d.keys())(*d.values()))\<close>:
  an object becomes a tuple with one attribute per key. A document that is a single
  value stays that value, which has none of the attributes the program reads.
\<close>

definition parse_entry :: "string \<Rightarrow> exc + entry" where
  "parse_entry blob =
     (case json_loads blob of
        None \<Rightarrow> Inl JSONDecodeError
      | Some (Scalar v) \<Rightarrow> Inr []
      | Some (Object d) \<Rightarrow> if list_all field_name_ok (map fst d) then Inr d else Inl ValueError)"

text \<open>
  The queue-driven loop of \<^verbatim>\<open>get\<close>. Every round opens the queue anew and pops one item;
  \<^verbatim>\<open>if not entry\<close> ends the loop when there is no item, and also when the item is the
  empty blob. As every round that goes on has taken an item from the disk, the loop is
  counted down from the number of items.
\<close>

fun get_from_queue :: "nat \<Rightarrow> world \<Rightarrow> string \<Rightarrow> args \<Rightarrow> state \<Rightarrow> unit result option" where
  "get_from_queue 0 w name a s = None"
| "get_from_queue (Suc n) w name a s =
     (let (queue, s1) = get_queue name s
      in case queue_pop queue s1 of
           (None, _, s2) \<Rightarrow> Some (Ok () s2)
         | (Some blob, queue', s2) \<Rightarrow>
             if blob = [] then Some (Ok () s2)
             else (case parse_entry blob of
                     Inl x \<Rightarrow> Some (Raised x s2)
                   | Inr parsed \<Rightarrow>
                       (case copy_dropbox_file w a parsed s2 of
                          Exit c s' \<Rightarrow> Some (Exit c s')
                        | Raised x s' \<Rightarrow> Some (Raised x s')
                        | Ok a' s3 \<Rightarrow> get_from_queue n w name a' (queue_close queue' s3))))"

text \<open>The \<^verbatim>\<open>for\<close> loop of the direct mode.\<close>

fun copy_entries :: "world \<Rightarrow> args \<Rightarrow> entry list \<Rightarrow> state \<Rightarrow> args result" where
  "copy_entries w a [] s = Ok a s"
| "copy_entries w a (e # es) s =
     (case copy_dropbox_file w a e s of
        Ok a' s' \<Rightarrow> copy_entries w a' es s'
      | Exit c s' \<Rightarrow> Exit c s'
      | Raised x s' \<Rightarrow> Raised x s')"

text \<open>
  The \<^verbatim>\<open>while True\<close> loop of the direct mode, as it is written: every round starts with
  \<^verbatim>\<open>files = files = dbx.files_list_folder(path=args.src_path, recursive=args.r)\<close>, and
  the page that \<^verbatim>\<open>files_list_folder_continue\<close> returns at the end of a round is
  assigned to \<^verbatim>\<open>files\<close> and then replaced by that first statement. \<open>None\<close> means
  that the supply of rounds did not suffice.
\<close>

fun get_direct :: "nat \<Rightarrow> world \<Rightarrow> args \<Rightarrow> state \<Rightarrow> unit result option" where
  "get_direct 0 w a s = None"
| "get_direct (Suc n) w a s =
     (case files_list_folder w (src_path a) (opt_r a) of
        None \<Rightarrow> Some (Raised ApiError s)
      | Some files \<Rightarrow>
          (case copy_entries w a (entries files) s of
             Exit c s' \<Rightarrow> Some (Exit c s')
           | Raised x s' \<Rightarrow> Some (Raised x s')
           | Ok a' s' \<Rightarrow>
               if has_more files then
                 (case files_list_folder_continue w (cursor files) of
                    None \<Rightarrow> Some (Raised ApiError s')
                  | Some files' \<Rightarrow> get_direct n w a' s')
               else Some (Ok () s')))"

text \<open>
  \<^verbatim>\<open>get(args)\<close>. The supply \<open>n\<close> bounds the rounds of the direct loop; the queue-driven
  loop gets one round per item on the disk and one more.
\<close>

definition get :: "nat \<Rightarrow> world \<Rightarrow> args \<Rightarrow> state \<Rightarrow> unit result option" where
  "get n w a s =
     (case connect_to_dropbox w a s of
        Exit c s' \<Rightarrow> Some (Exit c s')
      | Raised x s' \<Rightarrow> Some (Raised x s')
      | Ok _ s1 \<Rightarrow>
          (case pullFilesFromQueue a of
             Some name \<Rightarrow>
               if name \<noteq> [] then get_from_queue (Suc (length (persisted s1 name))) w name a s1
               else (case connect_to_dropbox w a s1 of
                       Exit c s' \<Rightarrow> Some (Exit c s')
                     | Raised x s' \<Rightarrow> Some (Raised x s')
                     | Ok _ s2 \<Rightarrow> get_direct n w a s2)
           | None \<Rightarrow>
               (case connect_to_dropbox w a s1 of
                  Exit c s' \<Rightarrow> Some (Exit c s')
                | Raised x s' \<Rightarrow> Some (Raised x s')
                | Ok _ s2 \<Rightarrow> get_direct n w a s2)))"

subsection \<open>The Queue Inspector: \<^verbatim>\<open>peek\<close>\<close>

text \<open>
  The loop of \<^verbatim>\<open>get_files_in_queue\<close>: pop, stop at no item (or at an empty blob, which
  \<^verbatim>\<open>if not file\<close> does not tell apart), otherwise append the decoded item to
  \<^verbatim>\<open>result.entries\<close>. The instance \<^verbatim>\<open>result\<close> has no attribute of its own, so
  that list is the class attribute \<^verbatim>\<open>FakeFileList.entries\<close>. One round per item the
  handle sees and one more.
\<close>

fun pop_all :: "nat \<Rightarrow> queue_handle \<Rightarrow> state \<Rightarrow> queue_handle \<times> state" where
  "pop_all 0 h s = (h, s)"
| "pop_all (Suc n) h s =
     (case queue_pop h s of
        (None, h', s') \<Rightarrow> (h', s')
      | (Some file, h', s') \<Rightarrow>
          if file = [] then (h', s')
          else pop_all n h' (s'\<lparr>FakeFileList_entries := FakeFileList_entries s' @ [file]\<rparr>))"

text \<open>
  \<^verbatim>\<open>get_files_in_queue(queue)\<close>; the list it returns is \<^const>\<open>FakeFileList_entries\<close> of
  the state it returns.
\<close>

definition get_files_in_queue :: "queue_handle \<Rightarrow> state \<Rightarrow> queue_handle \<times> state" where
  "get_files_in_queue queue s =
     (if queue_len queue s = 0 then (queue, print Msg_queue_not_found s)
      else pop_all (Suc (queue_len queue s)) queue s)"

text \<open>\<^verbatim>\<open>print(json.loads(file)['path_display'])\<close> for every collected item.\<close>

fun print_paths :: "string list \<Rightarrow> state \<Rightarrow> unit result" where
  "print_paths [] s = Ok () s"
| "print_paths (file # files) s =
     (case json_loads file of
        None \<Rightarrow> Raised JSONDecodeError s
      | Some (Scalar v) \<Rightarrow> Raised TypeError s
      | Some (Object d) \<Rightarrow>
          (case map_of d ''path_display'' of
             None \<Rightarrow> Raised KeyError s
           | Some v \<Rightarrow> print_paths files (print (Msg_path v) s)))"

definition peek :: "args \<Rightarrow> state \<Rightarrow> unit result" where
  "peek a s =
     (case queueName a of
        None \<Rightarrow> Ok () s
      | Some name \<Rightarrow>
          if name = [] then Ok () s
          else
            (let (queue, s1) = get_queue name s;
                 (queue', s2) = get_files_in_queue queue s1
             in case print_paths (FakeFileList_entries s2) s2 of
                  Ok _ s3 \<Rightarrow> Ok () (if flush a then queue_close queue' s3 else s3)
                | Exit c s' \<Rightarrow> Exit c s'
                | Raised x s' \<Rightarrow> Raised x s'))"

section \<open>Concrete inputs\<close>

text \<open>
  A world in which everything works: a token in the environment, an account, a listing
  of one page, a remote file \<^verbatim>\<open>/docs/a.txt\<close>, and a time stamp that counts the seconds
  of the day.
\<close>

definition file_a :: entry where
  "file_a = [(''path_display'', PStr ''/docs/a.txt''), (''size'', PInt 5),
     (''server_modified'', PDatetime \<lparr>year = 2020, month = 2, day = 29, hour = 10,
        minute = 30, second = 15, microsecond = 0\<rparr>),
     (''client_modified'', PDatetime \<lparr>year = 2019, month = 12, day = 31, hour = 23,
        minute = 59, second = 59, microsecond = 0\<rparr>)]"

definition file_b :: entry where
  "file_b = [(''path_display'', PStr ''/docs/b.txt''), (''size'', PInt 7),
     (''server_modified'', PDatetime \<lparr>year = 2021, month = 1, day = 2, hour = 3,
        minute = 4, second = 5, microsecond = 0\<rparr>),
     (''client_modified'', PDatetime \<lparr>year = 2021, month = 1, day = 1, hour = 0,
        minute = 0, second = 0, microsecond = 0\<rparr>)]"

text \<open>An empty file, a folder, and a folder below an excluded path.\<close>

definition empty_file :: entry where
  "empty_file = [(''path_display'', PStr ''/docs/empty.txt''), (''size'', PInt 0),
     (''server_modified'', PDatetime \<lparr>year = 2021, month = 1, day = 2, hour = 3,
        minute = 4, second = 5, microsecond = 0\<rparr>),
     (''client_modified'', PDatetime \<lparr>year = 2021, month = 1, day = 1, hour = 0,
        minute = 0, second = 0, microsecond = 0\<rparr>)]"

definition folder_docs :: entry where
  "folder_docs = [(''path_display'', PStr ''/docs'')]"

definition folder_tmp :: entry where
  "folder_tmp = [(''path_display'', PStr ''/tmp/cache'')]"

definition file_tmp :: entry where
  "file_tmp = [(''path_display'', PStr ''/tmp/x.bin''), (''size'', PInt 9),
     (''server_modified'', PDatetime \<lparr>year = 2021, month = 1, day = 2, hour = 3,
        minute = 4, second = 5, microsecond = 0\<rparr>),
     (''client_modified'', PDatetime \<lparr>year = 2021, month = 1, day = 1, hour = 0,
        minute = 0, second = 0, microsecond = 0\<rparr>)]"

definition seconds_of_day :: "datetime \<Rightarrow> int option" where
  "seconds_of_day d = Some (int (3600 * hour d + 60 * minute d + second d))"

definition world_ok :: world where
  "world_ok = \<lparr>env_token = Some ''secret'', account_email = Some ''me@example.org'',
     files_list_folder = (\<lambda>p rec. Some \<lparr>entries = [folder_docs, file_a], has_more = False,
                                         cursor = ''c1''\<rparr>),
     files_list_folder_continue = (\<lambda>c. None),
     remote_content = (\<lambda>p. if p = ''/docs/a.txt'' then Some ''hello''
                            else if p = ''/docs/b.txt'' then Some ''goodbye'' else None),
     makedirs_fails = (\<lambda>p. False), utime_fails = (\<lambda>p. False),
     timestamp = seconds_of_day\<rparr>"

text \<open>The same service, answering with two pages: the first one announces more.\<close>

definition world_two_pages :: world where
  "world_two_pages = world_ok\<lparr>
     files_list_folder := (\<lambda>p rec. Some \<lparr>entries = [folder_docs, file_a], has_more = True,
                                          cursor = ''c1''\<rparr>),
     files_list_folder_continue := (\<lambda>c. if c = ''c1''
        then Some \<lparr>entries = [file_b], has_more = False, cursor = ''c2''\<rparr> else None)\<rparr>"

definition args_get :: args where
  "args_get = \<lparr>dropbox_token = None, path = ''/'', opt_r = True, excludePaths = [''/tmp''],
     pushFilesToQueue = None, src_path = [], dest_path = ''/backup'',
     pullFilesFromQueue = None, queueName = None, flush = False\<rparr>"

definition state_empty :: state where
  "state_empty = \<lparr>stdout = [], queues = Map.empty, local_dirs = [], local_files = Map.empty,
     FakeFileList_entries = []\<rparr>"

text \<open>
  The arguments of \<^verbatim>\<open>ls -r / --excludePaths /tmp --pushFilesToQueue q1\<close> and of
  \<^verbatim>\<open>peek --queueName q1\<close>, and a handle on \<^verbatim>\<open>q1\<close> that has buffered nothing.
\<close>

definition args_ls :: args where
  "args_ls = args_get\<lparr>pushFilesToQueue := Some ''q1''\<rparr>"

definition args_peek :: args where
  "args_peek = args_get\<lparr>queueName := Some ''q1''\<rparr>"

definition handle_q1 :: queue_handle where
  "handle_q1 = \<lparr>qname = ''q1'', buffered = []\<rparr>"

text \<open>A file the service lists but cannot deliver.\<close>

definition file_gone :: entry where
  "file_gone = [(''path_display'', PStr ''/docs/gone.txt''), (''size'', PInt 3),
     (''server_modified'', PDatetime \<lparr>year = 2021, month = 1, day = 2, hour = 3,
        minute = 4, second = 5, microsecond = 0\<rparr>),
     (''client_modified'', PDatetime \<lparr>year = 2021, month = 1, day = 1, hour = 0,
        minute = 0, second = 0, microsecond = 0\<rparr>)]"

text \<open>
  The Work Items of \<^const>\<open>file_a\<close> and \<^const>\<open>file_b\<close> as text and as the consumer
  reads them back, and a disk on which the queue \<^verbatim>\<open>q1\<close> holds both.
\<close>

definition blob_a :: string where
  "blob_a = ''{\"path_display\": \"/docs/a.txt\", \"size\": 5, \"server_modified\": \"2020-02-29T10:30:15\", \"client_modified\": \"2019-12-31T23:59:59\"}''"

definition blob_b :: string where
  "blob_b = ''{\"path_display\": \"/docs/b.txt\", \"size\": 7, \"server_modified\": \"2021-01-02T03:04:05\", \"client_modified\": \"2021-01-01T00:00:00\"}''"

definition item_a :: entry where
  "item_a = [(''path_display'', PStr ''/docs/a.txt''), (''size'', PInt 5),
     (''server_modified'', PStr ''2020-02-29T10:30:15''),
     (''client_modified'', PStr ''2019-12-31T23:59:59'')]"

definition item_b :: entry where
  "item_b = [(''path_display'', PStr ''/docs/b.txt''), (''size'', PInt 7),
     (''server_modified'', PStr ''2021-01-02T03:04:05''),
     (''client_modified'', PStr ''2021-01-01T00:00:00'')]"

definition state_q1 :: state where
  "state_q1 = state_empty\<lparr>queues := [''q1'' \<mapsto> [blob_a, blob_b]]\<rparr>"

section \<open>Facts about the library functions\<close>

lemma hex_val_hex_char: "n < 16 \<Longrightarrow> hex_val (hex_char n) = Some n"
  by (auto simp: hex_val_def hex_char_def Let_def)

lemma hex4_byte:
  assumes "n < 256"
  shows "hex4 (CHR ''0'') (CHR ''0'') (hex_char (n div 16)) (hex_char n) = Some n"
proof -
  have a: "hex_val (hex_char (n div 16)) = Some (n div 16)"
    using assms by (intro hex_val_hex_char) simp
  have "hex_char n = hex_char (n mod 16)" by (simp add: hex_char_def)
  then have b: "hex_val (hex_char n) = Some (n mod 16)"
    using hex_val_hex_char [of "n mod 16"] by simp
  have z: "hex_val (CHR ''0'') = Some 0" by (simp add: hex_val_def)
  show ?thesis by (simp add: hex4_def a b z)
qed

lemma scan_special:
  "unescape e = Some x \<Longrightarrow> e \<noteq> CHR ''u'' \<Longrightarrow>
   scanstring (CHR 0x5C # e # rest) = cons_str x (scanstring rest)"
  by simp

lemma scan_plain:
  "c \<noteq> CHR ''\"'' \<Longrightarrow> c \<noteq> CHR 0x5C \<Longrightarrow> 32 \<le> (of_char c :: nat) \<Longrightarrow>
   scanstring (c # rest) = cons_str c (scanstring rest)"
  by simp

lemma scan_u:
  "scanstring (CHR 0x5C # CHR ''u'' # CHR ''0'' # CHR ''0'' # hex_char (of_char c div 16) # hex_char (of_char c) # rest)
     = cons_str c (scanstring rest)"
proof -
  have "(of_char c :: nat) < 256" by simp
  from hex4_byte [OF this] show ?thesis by simp
qed

lemma scan_escape: "scanstring (escape_char c @ rest) = cons_str c (scanstring rest)"
proof -
  consider "c = CHR ''\"''" | "c = CHR 0x5C" | "c = CHR 0x0A" | "c = CHR 0x0D" | "c = CHR 0x09"
    | "c = CHR 0x08" | "c = CHR 0x0C"
    | "c \<noteq> CHR ''\"''" "c \<noteq> CHR 0x5C" "32 \<le> (of_char c :: nat)" "(of_char c :: nat) \<le> 126"
    | "c \<noteq> CHR ''\"''" "c \<noteq> CHR 0x5C" "c \<noteq> CHR 0x0A" "c \<noteq> CHR 0x0D" "c \<noteq> CHR 0x09"
       "c \<noteq> CHR 0x08" "c \<noteq> CHR 0x0C" "\<not> (32 \<le> (of_char c :: nat) \<and> (of_char c :: nat) \<le> 126)"
    by blast
  then show ?thesis
  proof cases
    case 8
    then have "escape_char c = [c]" by (auto simp: escape_char_def)
    then show ?thesis using 8 by (simp del: scanstring.simps add: scan_plain)
  next
    case 9
    then have "escape_char c = [CHR 0x5C, CHR ''u'', CHR ''0'', CHR ''0'',
            hex_char (of_char c div 16), hex_char (of_char c)]" by (simp add: escape_char_def)
    then show ?thesis by (simp del: scanstring.simps add: scan_u)
  qed (simp_all add: escape_char_def unescape_def)
qed

lemma scanstring_encode:
  "scanstring (concat (map escape_char t) @ CHR ''\"'' # rest) = Some (t, rest)"
  by (induction t) (simp_all add: scan_escape cons_str_def)


declare nat_digits.simps [simp del]

lemma char_of_48: "char_of (48::nat) = CHR ''0''"
proof -
  have "char_of (of_char (CHR ''0'') :: nat) = CHR ''0''" by (rule char_of_char)
  then show ?thesis by simp
qed

lemma is_digit_digit_char: "is_digit (digit_char n)"
  by (simp add: is_digit_def digit_char_def)

lemma digit_val_digit_char: "digit_val (digit_char n) = n mod 10"
  by (simp add: digit_val_def digit_char_def)

lemma digit_char_eq_zero: "digit_char n = CHR ''0'' \<longleftrightarrow> n mod 10 = 0"
proof
  assume "digit_char n = CHR ''0''"
  then have "digit_val (digit_char n) = digit_val (CHR ''0'')" by simp
  then show "n mod 10 = 0" by (simp add: digit_val_digit_char) (simp add: digit_val_def)
next
  assume "n mod 10 = 0"
  then show "digit_char n = CHR ''0''" by (simp add: digit_char_def char_of_48)
qed

lemma nat_digits_not_Nil: "nat_digits n \<noteq> []"
  by (subst nat_digits.simps) simp

lemma nat_digits_all_digits: "list_all is_digit (nat_digits n)"
  by (induction n rule: nat_digits.induct) (subst nat_digits.simps, simp add: is_digit_digit_char)

lemma digits_val_snoc: "digits_val (ds @ [c]) = 10 * digits_val ds + digit_val c"
  by (simp add: digits_val_def)

lemma digits_val_nat_digits: "digits_val (nat_digits n) = n"
proof (induction n rule: nat_digits.induct)
  case (1 n)
  show ?case
  proof (cases "n < 10")
    case True
    then show ?thesis
      by (subst nat_digits.simps) (simp add: digits_val_def digit_val_digit_char)
  next
    case False
    with 1 show ?thesis
      by (subst nat_digits.simps) (simp add: digits_val_snoc digit_val_digit_char)
  qed
qed

lemma hd_nat_digits_zero: "hd (nat_digits n) = CHR ''0'' \<longleftrightarrow> n = 0"
proof (induction n rule: nat_digits.induct)
  case (1 n)
  show ?case
  proof (cases "n < 10")
    case True
    then show ?thesis
      by (subst nat_digits.simps) (simp add: digit_char_eq_zero)
  next
    case False
    with 1 show ?thesis
      by (subst nat_digits.simps) (simp add: nat_digits_not_Nil)
  qed
qed

lemma nat_digits_0: "nat_digits 0 = ''0''"
  by (subst nat_digits.simps) (simp add: digit_char_def char_of_48)

lemma hd_nat_digits_digit: "is_digit (hd (nat_digits n))"
  using nat_digits_all_digits [of n] nat_digits_not_Nil [of n]
  by (cases "nat_digits n") simp_all

lemma takeWhile_digits:
  "list_all is_digit ds \<Longrightarrow> ends_number rest \<Longrightarrow> takeWhile is_digit (ds @ rest) = ds"
  by (cases rest) (auto simp: ends_number_def list_all_iff takeWhile_append2 )

lemma scan_nat_digits:
  assumes "ends_number rest"
  shows "scan_int (nat_digits n @ rest) = Some (int n, rest)"
proof (cases "n = 0")
  case True
  with assms show ?thesis
    by (cases rest) (simp_all add: nat_digits_0 scan_int_def ends_number_def digits_val_def digit_val_def)
next
  case False
  obtain c cs where cs: "nat_digits n = c # cs"
    using nat_digits_not_Nil [of n] by (cases "nat_digits n") auto
  have c0: "c \<noteq> CHR ''0''" using hd_nat_digits_zero [of n] False cs by simp
  have cd: "is_digit c" using hd_nat_digits_digit [of n] cs by simp
  have cm: "c \<noteq> CHR ''-''" using cd by (auto simp: is_digit_def)
  have tw: "takeWhile is_digit (nat_digits n @ rest) = nat_digits n"
    using takeWhile_digits [OF nat_digits_all_digits assms] .
  have "scan_int ((c # cs) @ rest) =
     (let ds = takeWhile is_digit ((c # cs) @ rest); rest' = drop (length ds) ((c # cs) @ rest)
      in if ds = [] then None
         else if rest' \<noteq> [] \<and> hd rest' \<in> set ''.eE'' then None
         else Some (int (digits_val ds), rest'))"
    using c0 cm unfolding scan_int_def by (simp add: Let_def)
  also have "\<dots> = Some (int n, rest)"
    unfolding cs [symmetric] using assms
    by (simp only: Let_def tw) (cases rest; simp add: nat_digits_not_Nil digits_val_nat_digits ends_number_def)
  finally show ?thesis by (simp add: cs)
qed


lemma scan_int_repr:
  assumes "ends_number rest"
  shows "scan_int (int_repr i @ rest) = Some (i, rest)"
proof (cases "i < 0")
  case False
  then have "int_repr i = nat_digits (nat i)" by (simp add: int_repr_def)
  with scan_nat_digits [OF assms, of "nat i"] False show ?thesis by simp
next
  case True
  let ?n = "nat (- i)"
  have n0: "?n \<noteq> 0" using True by simp
  obtain c cs where cs: "nat_digits ?n = c # cs"
    using nat_digits_not_Nil [of ?n] by (cases "nat_digits ?n") auto
  have c0: "c \<noteq> CHR ''0''" using hd_nat_digits_zero [of ?n] n0 cs by simp
  have cd: "is_digit c" using hd_nat_digits_digit [of ?n] cs by simp
  have cm: "c \<noteq> CHR ''-''" using cd by (auto simp: is_digit_def)
  from scan_nat_digits [OF assms, of ?n]
  have pos: "scan_int (c # cs @ rest) = Some (int ?n, rest)" by (simp add: cs)
  have "scan_int (CHR ''-'' # c # cs @ rest) =
          map_option (\<lambda>(v, r). (- v, r)) (scan_int (c # cs @ rest))"
    using c0 cm by (simp add: scan_int_def Let_def)
  with pos True show ?thesis by (simp add: int_repr_def cs)
qed

lemma ends_value_number: "ends_value rest \<Longrightarrow> ends_number rest"
  by (auto simp: ends_value_def ends_number_def is_digit_def split: list.splits)

lemma hd_int_repr: "\<exists>c cs. int_repr i = c # cs \<and> (c = CHR ''-'' \<or> is_digit c)"
proof (cases "i < 0")
  case True
  then show ?thesis by (simp add: int_repr_def)
next
  case False
  then show ?thesis
    using hd_nat_digits_digit [of "nat i"] nat_digits_not_Nil [of "nat i"]
    by (cases "nat_digits (nat i)") (simp_all add: int_repr_def)
qed

lemma scan_value_dumps:
  assumes "dumps_value v = Some t" and "ends_value rest"
  shows "scan_value (t @ rest) = Some (v, rest)"
proof (cases v)
  case PNone
  with assms have "t = ''null''" by (simp add: dumps_value_def)
  with PNone show ?thesis by (simp add: scan_value_def)
next
  case (PInt i)
  obtain c cs where c: "int_repr i = c # cs" "c = CHR ''-'' \<or> is_digit c"
    using hd_int_repr by blast
  then have "c \<noteq> CHR ''\"''" "c \<noteq> CHR ''n''" by (auto simp: is_digit_def)
  then have "scan_value (int_repr i @ rest) =
               map_option (\<lambda>(i, rest). (PInt i, rest)) (scan_int (int_repr i @ rest))"
    by (simp add: scan_value_def c)
  moreover have "t = int_repr i" using PInt assms by (simp add: dumps_value_def)
  moreover have "scan_int (int_repr i @ rest) = Some (i, rest)"
    using assms(2) by (intro scan_int_repr ends_value_number)
  ultimately show ?thesis using PInt by simp
next
  case (PStr u)
  with assms have "t = CHR ''\"'' # concat (map escape_char u) @ [CHR ''\"'']"
    by (simp add: dumps_value_def encode_basestring_ascii_def)
  with PStr show ?thesis by (simp add: scan_value_def scanstring_encode)
next
  case (PDatetime d)
  with assms show ?thesis by (simp add: dumps_value_def)
qed

lemma skip_ws_Cons:
  "c \<notin> set [CHR '' '', CHR 0x09, CHR 0x0A, CHR 0x0D] \<Longrightarrow> skip_ws (c # cs) = c # cs"
  by (simp add: skip_ws_def)

lemma skip_ws_space: "skip_ws (CHR '' '' # cs) = skip_ws cs"
  by (simp add: skip_ws_def)

lemma skip_ws_encode: "skip_ws (encode_basestring_ascii k @ r) = encode_basestring_ascii k @ r"
  by (simp add: encode_basestring_ascii_def skip_ws_def)

lemma dumps_value_hd:
  assumes "dumps_value v = Some t"
  shows "\<exists>c cs. t = c # cs \<and> c \<notin> set [CHR '' '', CHR 0x09, CHR 0x0A, CHR 0x0D]"
proof (cases v)
  case (PInt i)
  with assms hd_int_repr [of i] show ?thesis
    by (auto simp: dumps_value_def is_digit_def)
qed (use assms in \<open>auto simp: dumps_value_def encode_basestring_ascii_def\<close>)

lemma skip_ws_value: "dumps_value v = Some t \<Longrightarrow> skip_ws (t @ r) = t @ r"
  using dumps_value_hd [of v t] by (auto simp: skip_ws_def)

lemma scan_members_dumps:
  assumes "dumps_members d = Some ms" and "d \<noteq> []" and "length d \<le> n"
  shows "scan_members n (ms @ CHR ''}'' # rest) = Some (d, rest)"
  using assms
proof (induction d arbitrary: ms n)
  case Nil
  then show ?case by simp
next
  case (Cons kv d)
  obtain k v where kv: "kv = (k, v)" by (cases kv)
  from Cons.prems(1) obtain t ts where t: "dumps_value v = Some t"
    and ts: "dumps_members d = Some ts"
    and ms: "ms = encode_basestring_ascii k @ '': '' @ t @ (if d = [] then [] else '', '' @ ts)"
    by (auto simp: kv split: option.splits)
  from Cons.prems(3) obtain m where n: "n = Suc m" and m: "length d \<le> m"
    by (cases n) auto
  show ?case
  proof (cases "d = []")
    case True
    have "scan_value (t @ CHR ''}'' # rest) = Some (v, CHR ''}'' # rest)"
      by (rule scan_value_dumps [OF t]) (simp add: ends_value_def)
    then show ?thesis
      using True t
      by (simp add: n ms kv encode_basestring_ascii_def scanstring_encode skip_ws_Cons
          skip_ws_space skip_ws_value)
  next
    case False
    have sv: "scan_value (t @ '', '' @ ts @ CHR ''}'' # rest) = Some (v, '', '' @ ts @ CHR ''}'' # rest)"
      by (rule scan_value_dumps [OF t]) (simp add: ends_value_def)
    have ih: "scan_members m (ts @ CHR ''}'' # rest) = Some (d, rest)"
      by (rule Cons.IH [OF ts False m])
    obtain k' v' d' where d: "d = (k', v') # d'" using False by (cases d) auto
    then obtain u where "ts = encode_basestring_ascii k' @ u"
      using ts by (auto split: option.splits)
    then have sk: "skip_ws (ts @ CHR ''}'' # rest) = ts @ CHR ''}'' # rest"
      by (simp add: skip_ws_encode)
    show ?thesis
      using False t sv ih sk
      by (simp add: n ms kv encode_basestring_ascii_def scanstring_encode skip_ws_Cons
          skip_ws_space skip_ws_value)
  qed
qed

lemma dumps_members_length: "dumps_members d = Some ms \<Longrightarrow> length d \<le> length ms"
proof (induction d arbitrary: ms)
  case Nil
  then show ?case by simp
next
  case (Cons kv d)
  obtain k v where kv: "kv = (k, v)" by (cases kv)
  from Cons.prems obtain t ts where ts: "dumps_members d = Some ts"
    and ms: "ms = encode_basestring_ascii k @ '': '' @ t @ (if d = [] then [] else '', '' @ ts)"
    by (auto simp: kv split: option.splits)
  from Cons.IH [OF ts] show ?case
    by (cases "d = []") (simp_all add: ms encode_basestring_ascii_def)
qed

lemma dict_of_distinct_aux:
  "distinct (map fst (acc @ kvs)) \<Longrightarrow>
   foldl (\<lambda>d (k, v). AList.update k v d) acc kvs = acc @ kvs"
proof (induction kvs arbitrary: acc)
  case Nil
  then show ?case by simp
next
  case (Cons kv kvs)
  obtain k v where kv: "kv = (k, v)" by (cases kv)
  from Cons.prems have "k \<notin> fst ` set acc" by (auto simp: kv)
  then have "AList.update k v acc = acc @ [(k, v)]"
    by (induction acc) auto
  with Cons.IH [of "acc @ [(k, v)]"] Cons.prems show ?case by (simp add: kv)
qed

lemma dict_of_distinct: "distinct (map fst kvs) \<Longrightarrow> dict_of kvs = kvs"
  using dict_of_distinct_aux [of "[]" kvs] by (simp add: dict_of_def)

lemma json_loads_dumps:
  assumes "json_dumps d = Some text" and "distinct (map fst d)"
  shows "json_loads text = Some (Object d)"
proof -
  from assms(1) obtain ms where ms: "dumps_members d = Some ms" and tx: "text = ''{'' @ ms @ ''}''"
    by (auto simp: json_dumps_def)
  show ?thesis
  proof (cases "d = []")
    case True
    with ms tx show ?thesis by (simp add: json_loads_def skip_ws_def)
  next
    case False
    then obtain k v d' where d: "d = (k, v) # d'" by (cases d) auto
    then obtain u where u: "ms = encode_basestring_ascii k @ u"
      using ms by (auto split: option.splits)
    have sk: "skip_ws (ms @ ''}'') = ms @ ''}''" by (simp add: u skip_ws_encode)
    have hd: "\<exists>cs. ms @ ''}'' = CHR ''\"'' # cs" by (simp add: u encode_basestring_ascii_def)
    have "length d \<le> length (ms @ ''}'')" using dumps_members_length [OF ms] by simp
    from scan_members_dumps [OF ms False this, of "[]"]
    have sm: "scan_members (length (ms @ ''}'')) (ms @ ''}'') = Some (d, [])" .
    from hd obtain cs where cs: "ms @ ''}'' = CHR ''\"'' # cs" by blast
    have "json_loads (CHR ''{'' # (ms @ ''}'')) = Some (Object (dict_of d))"
      unfolding json_loads_def using sm sk
      by (simp add: skip_ws_Cons cs) (simp add: skip_ws_def)
    then show ?thesis by (simp add: tx dict_of_distinct [OF assms(2)])
  qed
qed


subsection \<open>What the Transfer Executor leaves alone\<close>

lemma print_frame [simp]:
  "queues (print l s) = queues s" "local_dirs (print l s) = local_dirs s"
  "local_files (print l s) = local_files s" "stdout (print l s) = stdout s @ [l]"
  "FakeFileList_entries (print l s) = FakeFileList_entries s"
  by (simp_all add: print_def)

lemma path_exists_print [simp]: "path_exists (print l s) p = path_exists s p"
  by (simp add: path_exists_def)

lemma makedirs_None: "makedirs w p s = None \<longleftrightarrow> p = [] \<or> makedirs_fails w p"
  by (simp add: makedirs_def)

lemma makedirs_queues: "makedirs w p s = Some s' \<Longrightarrow> queues s' = queues s"
  by (auto simp: makedirs_def split: if_splits)

lemma make_local_dir_queues:
  "make_local_dir w d s = Inr s' \<Longrightarrow> queues s' = queues s"
  "make_local_dir w d s = Inl s' \<Longrightarrow> queues s' = queues s"
  by (auto simp: make_local_dir_def Let_def dest: makedirs_queues split: if_splits option.splits)

lemma download_to_file_Some:
  "download_to_file w src dest s = Some s' \<Longrightarrow>
     queues s' = queues s \<and> local_files s' dest \<noteq> None"
  by (auto simp: download_to_file_def split: option.splits)

lemma utime_queues: "utime w dest tm s = Some s' \<Longrightarrow> queues s' = queues s"
  by (auto simp: utime_def split: option.splits if_splits)

lemma set_times_queues:
  "set_times w e dest a s = r \<Longrightarrow>
   (case r of Ok _ s' \<Rightarrow> queues s' = queues s | Exit c s' \<Rightarrow> queues s' = queues s \<and> c = 1
    | Raised x s' \<Rightarrow> queues s' = queues s)"
  by (auto simp: set_times_def dest: utime_queues split: sum.splits option.splits)

lemma download_queues:
  "download w e src dest a s = r \<Longrightarrow>
   (case r of Ok _ s' \<Rightarrow> queues s' = queues s | Exit c s' \<Rightarrow> queues s' = queues s \<and> c = 1
    | Raised x s' \<Rightarrow> queues s' = queues s)"
  unfolding download_def Let_def
  by (auto split: option.splits result.splits dest!: download_to_file_Some set_times_queues)

lemma copy_dropbox_file_queues:
  "copy_dropbox_file w a e s = r \<Longrightarrow>
   (case r of Ok _ s' \<Rightarrow> queues s' = queues s | Exit c s' \<Rightarrow> queues s' = queues s \<and> c = 1
    | Raised x s' \<Rightarrow> queues s' = queues s)"
  unfolding copy_dropbox_file_def Let_def
  by (auto split: option.splits pyval.splits sum.splits result.splits if_splits
      dest!: download_queues make_local_dir_queues)


lemma copy_fails:
  assumes "getattr e ''path_display'' = Some (PStr p)"
    and "truthy (getattr_default e ''size'' PNone)"
    and "\<not> excluded p (excludePaths a)"
    and "(\<not> path_exists s (dirname (dest_path a @ p)) \<and>
            (dirname (dest_path a @ p) = [] \<or> makedirs_fails w (dirname (dest_path a @ p))))
         \<or> remote_content w p = None
         \<or> (\<exists>x. entry_times w e = Inl x)
         \<or> utime_fails w (dest_path a @ p)"
  shows "\<exists>s'. copy_dropbox_file w a e s = Exit 1 s'"
proof -
  let ?d = "dirname (dest_path a @ p)"
  let ?a = "if src_path a = ''/'' then a\<lparr>src_path := []\<rparr> else a"
  have da: "dest_path ?a = dest_path a" by simp
  have c: "copy_dropbox_file w a e s =
      (case make_local_dir w ?d s of
         Inl s1 \<Rightarrow> Exit 1 (print (Msg_error OSError) s1)
       | Inr s1 \<Rightarrow> download w e p (dest_path a @ p) ?a s1)"
    using assms(1-3) by (simp add: copy_dropbox_file_def Let_def split: sum.splits)
  show ?thesis
  proof (cases "make_local_dir w ?d s")
    case (Inl s1)
    with c show ?thesis by simp
  next
    case (Inr s1)
    then have nodir: "\<not> (\<not> path_exists s ?d \<and> (?d = [] \<or> makedirs_fails w ?d))"
      by (auto simp: make_local_dir_def Let_def makedirs_def split: if_splits)
    show ?thesis
    proof (cases "download_to_file w p (dest_path a @ p) (print (Msg_downloading p (dest_path a @ p)) s1)")
      case None
      with c Inr show ?thesis by (simp add: download_def Let_def)
    next
      case (Some s2)
      then have rc: "remote_content w p \<noteq> None" and f: "local_files s2 (dest_path a @ p) \<noteq> None"
        by (auto simp: download_to_file_def split: option.splits)
      from assms(4) nodir rc have "(\<exists>x. entry_times w e = Inl x) \<or> utime_fails w (dest_path a @ p)"
        by blast
      then have "\<exists>s'. set_times w e (dest_path a @ p) ?a s2 = Exit 1 s'"
        using f by (auto simp: set_times_def utime_def split: sum.splits option.splits)
      with c Inr Some show ?thesis by (simp add: download_def Let_def)
    qed
  qed
qed

lemma get_from_queue_step:
  assumes "persisted s0 name = blob # rest" and "blob \<noteq> []" and "parse_entry blob = Inr e"
  shows "get_from_queue (Suc n) w name a s0 =
     (case copy_dropbox_file w a e (s0\<lparr>queues := (queues s0)(name \<mapsto> rest)\<rparr>) of
        Exit c s' \<Rightarrow> Some (Exit c s')
      | Raised x s' \<Rightarrow> Some (Raised x s')
      | Ok a' s3 \<Rightarrow> get_from_queue n w name a' (queue_close \<lparr>qname = name, buffered = []\<rparr> s3))"
  using assms
  by (simp add: get_queue_def queue_open_def queue_pop_def persisted_def)

subsection \<open>Draining a queue\<close>

lemma persisted_simps [simp]:
  "persisted (s\<lparr>FakeFileList_entries := f\<rparr>) name = persisted s name"
  "persisted (s\<lparr>stdout := out\<rparr>) name = persisted s name"
  "persisted (s\<lparr>queues := q\<rparr>) name = (case q name of None \<Rightarrow> [] | Some bs \<Rightarrow> bs)"
  "persisted (print l s) name = persisted s name"
  by (simp_all add: persisted_def)

lemma pop_all_entries:
  "FakeFileList_entries (snd (pop_all n h s)) =
     FakeFileList_entries s @
       takeWhile (\<lambda>b. b \<noteq> []) (take n (persisted s (qname h) @ buffered h))"
proof (induction n arbitrary: h s)
  case 0
  then show ?case by simp
next
  case (Suc n)
  show ?case
  proof (cases "persisted s (qname h)")
    case (Cons x xs)
    then show ?thesis
      by (simp add: queue_pop_def Suc.IH)
  next
    case Nil
    then show ?thesis
      by (cases "buffered h") (simp_all add: queue_pop_def Suc.IH)
  qed
qed

lemma pop_all_drains:
  assumes "queues s (qname h) = Some items" and "buffered h = []"
    and "[] \<notin> set items" and "length items < n"
  shows "pop_all n h s =
     (h, s\<lparr>queues := (queues s)(qname h \<mapsto> []),
           FakeFileList_entries := FakeFileList_entries s @ items\<rparr>)"
  using assms
proof (induction n arbitrary: s items)
  case 0
  then show ?case by simp
next
  case (Suc n)
  show ?case
  proof (cases items)
    case Nil
    with Suc.prems have "(queues s)(qname h \<mapsto> []) = queues s" by (auto simp: fun_upd_idem)
    with Nil Suc.prems show ?thesis by (simp add: queue_pop_def persisted_def)
  next
    case (Cons x xs)
    let ?s = "s\<lparr>queues := (queues s)(qname h \<mapsto> xs),
                  FakeFileList_entries := FakeFileList_entries s @ [x]\<rparr>"
    have x: "x \<noteq> []" using Suc.prems(3) Cons by auto
    have "pop_all n h ?s = (h, ?s\<lparr>queues := (queues ?s)(qname h \<mapsto> []),
           FakeFileList_entries := FakeFileList_entries ?s @ xs\<rparr>)"
      using Suc.prems Cons by (intro Suc.IH) auto
    then have ih: "pop_all n h ?s = (h, s\<lparr>queues := (queues s)(qname h \<mapsto> []),
           FakeFileList_entries := FakeFileList_entries s @ items\<rparr>)"
      by (simp add: Cons)
    have "queue_pop h s = (Some x, h, s\<lparr>queues := (queues s)(qname h \<mapsto> xs)\<rparr>)"
      using Suc.prems(1) Cons by (simp add: queue_pop_def persisted_def)
    then have "pop_all (Suc n) h s = pop_all n h ?s" using x by simp
    then show ?thesis by (rule trans [OF _ ih])
  qed
qed

lemma json_loads_Nil: "json_loads [] = None"
  by (simp add: json_loads_def skip_ws_def)

lemma print_paths_work_items:
  "list_all2 (\<lambda>blob v. \<exists>d. json_loads blob = Some (Object d) \<and>
                map_of d ''path_display'' = Some v) items paths \<Longrightarrow>
   print_paths items s = Ok () (s\<lparr>stdout := stdout s @ map Msg_path paths\<rparr>)"
proof (induction items paths arbitrary: s rule: list_all2_induct)
  case Nil
  then show ?case by simp
next
  case (Cons x xs y ys)
  from Cons.hyps(1) obtain d where "json_loads x = Some (Object d)"
    "map_of d ''path_display'' = Some y"
    by blast
  then show ?case by (simp add: Cons.IH print_def)
qed

subsection \<open>Timestamps: parsing what \<^verbatim>\<open>isoformat\<close> wrote\<close>

lemma digits_val_pad2: "n < 100 \<Longrightarrow> digits_val (pad2 n) = n"
  by (simp add: digits_val_def pad2_def digit_val_digit_char)

lemma digits_val_pad4:
  assumes "n < 10000"
  shows "digits_val (pad4 n) = n"
proof -
  have a: "n div 10 div 10 = n div 100" and b: "n div 100 div 10 = n div 1000"
    by (simp_all add: div_mult2_eq)
  have "n = 10 * (n div 10) + n mod 10" by simp
  moreover have "n div 10 = 10 * (n div 100) + n div 10 mod 10"
    using div_mult_mod_eq [of "n div 10" 10] a by simp
  moreover have "n div 100 = 10 * (n div 1000) + n div 100 mod 10"
    using div_mult_mod_eq [of "n div 100" 10] b by simp
  moreover have "n div 1000 mod 10 = n div 1000" using assms by simp
  moreover have "\<And>x1 x2 x3 A B C D :: nat. n = 10 * x1 + D \<Longrightarrow> x1 = 10 * x2 + C \<Longrightarrow>
      x2 = 10 * x3 + B \<Longrightarrow> A = x3 \<Longrightarrow> 10 * (10 * (10 * A + B) + C) + D = n"
    by simp
  ultimately have "10 * (10 * (10 * (n div 1000 mod 10) + n div 100 mod 10) + n div 10 mod 10)
        + n mod 10 = n" by blast
  then show ?thesis
    using assms by (simp add: digits_val_def pad4_def digit_val_digit_char)
qed

lemma field_digits:
  assumes "list_all is_digit ds" and "\<not> is_digit c" and "c \<in> set seps"
    and "ok (length ds) (digits_val ds)"
  shows "field ok seps (ds @ c # rest) = Some (digits_val ds, rest)"
proof -
  have "\<forall>x\<in>set ds. is_digit x" using assms(1) by (simp add: list_all_iff)
  then have "takeWhile is_digit (ds @ c # rest) = ds" "dropWhile is_digit (ds @ c # rest) = c # rest"
    using assms(2) by (simp_all add: takeWhile_append2 dropWhile_append2)
  with assms(3,4) show ?thesis by (auto simp: field_def Let_def)
qed

lemma field_last:
  assumes "list_all is_digit ds" and "ok (length ds) (digits_val ds)"
  shows "field ok [] ds = Some (digits_val ds, [])"
proof -
  have "\<forall>x\<in>set ds. is_digit x" using assms(1) by (simp add: list_all_iff)
  then have tw: "takeWhile is_digit ds = ds" and dw: "dropWhile is_digit ds = []"
    by (simp_all add: takeWhile_eq_all_conv)
  show ?thesis unfolding field_def Let_def tw dw using assms(2) by simp
qed

lemma pad2_digits: "list_all is_digit (pad2 n)" "length (pad2 n) = 2"
  by (simp_all add: pad2_def is_digit_digit_char)

lemma pad4_digits: "list_all is_digit (pad4 n)" "length (pad4 n) = 4"
  by (simp_all add: pad4_def is_digit_digit_char)

lemma not_digit_seps: "\<not> is_digit CHR ''-''" "\<not> is_digit CHR ''T''" "\<not> is_digit CHR '':''"
  by (simp_all add: is_digit_def)

lemma field_pad2:
  assumes "n < 100" and "ok 2 n" and "\<not> is_digit c" and "c \<in> set seps"
  shows "field ok seps (pad2 n @ c # rest) = Some (n, rest)"
  using field_digits [of "pad2 n" c seps ok rest] assms
  by (simp add: pad2_digits digits_val_pad2)

lemma field_pad4:
  assumes "n < 10000" and "ok 4 n" and "\<not> is_digit c" and "c \<in> set seps"
  shows "field ok seps (pad4 n @ c # rest) = Some (n, rest)"
  using field_digits [of "pad4 n" c seps ok rest] assms
  by (simp add: pad4_digits digits_val_pad4)

lemma days_in_month_le: "days_in_month y m \<le> 31"
  by (simp add: days_in_month_def)

lemma pad2_no_space: "\<exists>c cs. pad2 n @ rest = c # cs \<and> c \<noteq> CHR '' ''"
proof -
  have "is_digit (digit_char (n div 10))" by (rule is_digit_digit_char)
  then have "digit_char (n div 10) \<noteq> CHR '' ''" by (auto simp: is_digit_def)
  then show ?thesis by (simp add: pad2_def)
qed

lemma strptime_isoformat:
  assumes "valid_datetime d" and "microsecond d = 0"
  shows "strptime (isoformat d) = Some d"
proof -
  from assms(1) have Y: "year d < 10000" "ok_Y 4 (year d)"
    and m: "month d < 100" "ok_m 2 (month d)"
    and H: "hour d < 100" "ok_H 2 (hour d)"
    and M: "minute d < 100" "ok_M 2 (minute d)"
    and S: "second d < 100" "ok_S 2 (second d)"
    by (simp_all add: valid_datetime_def ok_Y_def ok_m_def ok_H_def ok_M_def ok_S_def)
  from assms(1) days_in_month_le [of "year d" "month d"]
  have D: "day d < 100" "ok_d 2 (day d)"
    by (simp_all add: valid_datetime_def ok_d_def)
  let ?s5 = "pad2 (second d)"
  let ?s4 = "pad2 (minute d) @ CHR '':'' # ?s5"
  let ?s3 = "pad2 (hour d) @ CHR '':'' # ?s4"
  let ?s2 = "pad2 (day d) @ CHR ''T'' # ?s3"
  let ?s1 = "pad2 (month d) @ CHR ''-'' # ?s2"
  have iso: "isoformat d = pad4 (year d) @ CHR ''-'' # ?s1"
    using assms(2) by (simp add: isoformat_def)
  have f1: "field ok_Y ''-'' (pad4 (year d) @ CHR ''-'' # ?s1) = Some (year d, ?s1)"
    by (rule field_pad4 [where ok = ok_Y, OF Y]) (simp_all add: not_digit_seps)
  have f2: "field ok_m ''-'' ?s1 = Some (month d, ?s2)"
    by (rule field_pad2 [where ok = ok_m, OF m]) (simp_all add: not_digit_seps)
  obtain c cs where c: "?s2 = c # cs" "c \<noteq> CHR '' ''"
    using pad2_no_space [of "day d" "CHR ''T'' # ?s3"] by auto
  have f3: "field ok_d ''Tt'' ?s2 = Some (day d, ?s3)"
    by (rule field_pad2 [where ok = ok_d, OF D]) (simp_all add: not_digit_seps)
  have f3': "field ok_d ''Tt'' (case ?s2 of c # s2' \<Rightarrow>
              if c = CHR '' '' \<and> length (takeWhile is_digit s2') = 1 then s2' else ?s2
            | [] \<Rightarrow> ?s2) = Some (day d, ?s3)"
    using c f3 by simp
  have f4: "field ok_H '':'' ?s3 = Some (hour d, ?s4)"
    by (rule field_pad2 [where ok = ok_H, OF H]) (simp_all add: not_digit_seps)
  have f5: "field ok_M '':'' ?s4 = Some (minute d, ?s5)"
    by (rule field_pad2 [where ok = ok_M, OF M]) (simp_all add: not_digit_seps)
  have f6: "field ok_S [] ?s5 = Some (second d, [])"
    using field_last [of "pad2 (second d)" ok_S] S
    by (simp add: pad2_digits digits_val_pad2)
  have "strptime (pad4 (year d) @ CHR ''-'' # ?s1) = Some d"
    unfolding strptime_def
    by (simp only: f1 f2 f3' f4 f5 f6 option.case prod.case Let_def)
       (use assms in \<open>cases d; simp add: valid_datetime_def\<close>)
  with iso show ?thesis by simp
qed

lemma parse_if_str_accepts:
  assumes "v = PDatetime d \<or> v = PStr (isoformat d) \<and> valid_datetime d \<and> microsecond d = 0"
  shows "parse_if_str v = Inr (PDatetime d)"
  using assms by (auto simp: parse_if_str_def strptime_isoformat)

lemma entry_times_accepts:
  assumes "getattr e ''server_modified'' = Some sm" and "getattr e ''client_modified'' = Some cm"
    and "sm = PDatetime d1 \<or> sm = PStr (isoformat d1) \<and> valid_datetime d1 \<and> microsecond d1 = 0"
    and "cm = PDatetime d2 \<or> cm = PStr (isoformat d2) \<and> valid_datetime d2 \<and> microsecond d2 = 0"
    and "timestamp w d1 = Some t1" and "timestamp w d2 = Some t2"
  shows "entry_times w e = Inr (t1, t2)"
  using assms(1,2,5,6) parse_if_str_accepts [OF assms(3)] parse_if_str_accepts [OF assms(4)]
  by (simp add: entry_times_def py_timestamp_def)

subsection \<open>The text of a Work Item\<close>

lemma ascii_hex_char: "ascii (hex_char n)"
proof -
  have "n mod 16 < 16" by simp
  then show ?thesis by (auto simp: ascii_def hex_char_def)
qed

lemma ascii_digit_char: "ascii (digit_char n)"
proof -
  have "n mod 10 < 10" by simp
  then show ?thesis by (auto simp: ascii_def digit_char_def)
qed

lemma ascii_escape_char: "list_all ascii (escape_char c)"
  by (simp add: escape_char_def ascii_hex_char) (simp add: ascii_def)

lemma ascii_encode: "list_all ascii (encode_basestring_ascii t)"
  by (induction t) (simp_all add: encode_basestring_ascii_def ascii_escape_char, simp_all add: ascii_def)

lemma ascii_nat_digits: "list_all ascii (nat_digits n)"
  by (induction n rule: nat_digits.induct) (subst nat_digits.simps, simp add: ascii_digit_char)

lemma ascii_int_repr: "list_all ascii (int_repr i)"
  by (simp add: int_repr_def ascii_nat_digits) (simp add: ascii_def)

lemma ascii_dumps_value:
  assumes "dumps_value v = Some t"
  shows "list_all ascii t"
proof (cases v)
  case PNone
  moreover have "list_all ascii ''null''" by (simp add: ascii_def)
  ultimately show ?thesis using assms by (auto simp: dumps_value_def)
qed (use assms in \<open>auto simp: dumps_value_def ascii_int_repr ascii_encode\<close>)

lemma ascii_dumps_members: "dumps_members d = Some ms \<Longrightarrow> list_all ascii ms"
proof (induction d arbitrary: ms)
  case Nil
  then show ?case by simp
next
  case (Cons kv d)
  obtain k v where kv: "kv = (k, v)" by (cases kv)
  from Cons.prems obtain t ts where t: "dumps_value v = Some t" and ts: "dumps_members d = Some ts"
    and ms: "ms = encode_basestring_ascii k @ '': '' @ t @ (if d = [] then [] else '', '' @ ts)"
    by (auto simp: kv split: option.splits)
  have "list_all ascii '': ''" "list_all ascii '', ''" by (simp_all add: ascii_def)
  with ascii_dumps_value [OF t] Cons.IH [OF ts] show ?case
    by (simp add: ms ascii_encode)
qed

lemma ascii_json_dumps: "json_dumps d = Some text \<Longrightarrow> list_all ascii text"
proof -
  assume "json_dumps d = Some text"
  then obtain ms where "dumps_members d = Some ms" "text = ''{'' @ ms @ ''}''"
    by (auto simp: json_dumps_def)
  moreover have "list_all ascii ''{''" "list_all ascii ''}''" by (simp_all add: ascii_def)
  ultimately show ?thesis using ascii_dumps_members [of d ms] by simp
qed


lemma work_item_text:
  assumes "getattr e ''path_display'' = Some (PStr p)"
    and "getattr e ''size'' = Some (PInt n)"
    and "getattr e ''server_modified'' = Some (PDatetime sm)"
    and "getattr e ''client_modified'' = Some (PDatetime cm)"
  shows "\<exists>blob. work_item e = Inr blob \<and>
           json_dumps [(''path_display'', PStr p), (''size'', PInt n),
             (''server_modified'', PStr (isoformat sm)),
             (''client_modified'', PStr (isoformat cm))] = Some blob"
  using assms by (simp add: work_item_def json_serial_def json_dumps_def dumps_value_def)

lemma four_fields_ok:
  "list_all field_name_ok [''path_display'', ''size'', ''server_modified'', ''client_modified'']"
  by (simp add: field_name_ok_def is_alpha_def is_digit_def kwlist_def)

subsection \<open>The two-page listing\<close>

lemma make_local_dir_ok:
  assumes "p \<noteq> []" and "\<not> makedirs_fails w p"
  shows "\<exists>s1. make_local_dir w p s = Inr s1"
proof (cases "path_exists s p")
  case True
  then show ?thesis by (simp add: make_local_dir_def)
next
  case False
  from assms have "makedirs w p (print (Msg_creating p) s) \<noteq> None"
    by (simp add: makedirs_None)
  then obtain s2 where "makedirs w p (print (Msg_creating p) s) = Some s2" by blast
  with False show ?thesis by (simp add: make_local_dir_def Let_def)
qed

lemma dirname_a: "dirname (''/backup'' @ ''/docs/a.txt'') = ''/backup/docs''"
  by (simp add: dirname_def)

lemma world_two_pages_simps:
  "remote_content world_two_pages = remote_content world_ok"
  "makedirs_fails world_two_pages = makedirs_fails world_ok"
  "utime_fails world_two_pages = utime_fails world_ok"
  "timestamp world_two_pages = timestamp world_ok"
  by (simp_all add: world_two_pages_def)

lemma world_ok_simps:
  "remote_content world_ok ''/docs/a.txt'' = Some ''hello''"
  "makedirs_fails world_ok p = False"
  "utime_fails world_ok p = False"
  "timestamp world_ok = seconds_of_day"
  by (simp_all add: world_ok_def)


lemma entry_times_file_a: "entry_times world_two_pages file_a = Inr (37815, 86399)"
  by (simp add: entry_times_def file_a_def getattr_def parse_if_str_def py_timestamp_def
      world_two_pages_simps world_ok_simps seconds_of_day_def)

lemma download_file_a:
  "\<exists>s'. download world_two_pages file_a ''/docs/a.txt'' dest a s = Ok a s'"
proof -
  let ?s1 = "print (Msg_downloading ''/docs/a.txt'' dest) s"
  let ?s2 = "?s1\<lparr>local_files := (local_files ?s1)(dest \<mapsto> \<lparr>content = ''hello'', times = None\<rparr>)\<rparr>"
  have d: "download_to_file world_two_pages ''/docs/a.txt'' dest ?s1 = Some ?s2"
    by (simp add: download_to_file_def world_two_pages_simps world_ok_simps)
  have "\<exists>s'. utime world_two_pages dest (37815, 86399) ?s2 = Some s'"
    by (simp add: utime_def world_two_pages_simps world_ok_simps)
  then obtain s' where u: "utime world_two_pages dest (37815, 86399) ?s2 = Some s'" ..
  have "set_times world_two_pages file_a dest a ?s2 = Ok a s'"
    using u by (simp add: set_times_def entry_times_file_a)
  with d show ?thesis by (simp add: download_def Let_def)
qed


lemma copy_file_a:
  "\<exists>s'. copy_dropbox_file world_two_pages args_get file_a s = Ok args_get s'"
proof -
  have g: "getattr file_a ''path_display'' = Some (PStr ''/docs/a.txt'')"
    "getattr_default file_a ''size'' PNone = PInt 5"
    by (simp_all add: file_a_def getattr_def getattr_default_def)
  have x: "\<not> excluded ''/docs/a.txt'' (excludePaths args_get)"
    by (simp add: args_get_def excluded_def)
  have a: "src_path args_get \<noteq> ''/''" "dest_path args_get = ''/backup''"
    by (simp_all add: args_get_def)
  obtain s1 where m: "make_local_dir world_two_pages ''/backup/docs'' s = Inr s1"
    using make_local_dir_ok [of "''/backup/docs''" world_two_pages s]
    by (auto simp: world_two_pages_simps world_ok_simps)
  obtain s' where d: "download world_two_pages file_a ''/docs/a.txt'' (''/backup'' @ ''/docs/a.txt'')
       args_get s1 = Ok args_get s'"
    using download_file_a by blast
  have "copy_dropbox_file world_two_pages args_get file_a s = Ok args_get s'"
    unfolding copy_dropbox_file_def using g x a m d
    by (simp add: Let_def dirname_a del: append.simps)
  then show ?thesis ..
qed

lemma copy_folder_docs:
  "copy_dropbox_file w a folder_docs s = Ok a (print (Msg_skipping ''/docs'') s)"
  by (simp add: copy_dropbox_file_def folder_docs_def getattr_def getattr_default_def)

lemma first_page_again:
  "\<exists>s'. copy_entries world_two_pages args_get [folder_docs, file_a] s = Ok args_get s'"
  using copy_file_a [of "print (Msg_skipping ''/docs'') s"] by (auto simp: copy_folder_docs)

lemma get_direct_never_returns:
  "get_direct n world_two_pages args_get s = None"
proof (induction n arbitrary: s)
  case 0
  then show ?case by simp
next
  case (Suc n)
  obtain s' where c: "copy_entries world_two_pages args_get [folder_docs, file_a] s = Ok args_get s'"
    using first_page_again by blast
  have l: "files_list_folder world_two_pages (src_path args_get) (opt_r args_get) =
          Some \<lparr>entries = [folder_docs, file_a], has_more = True, cursor = ''c1''\<rparr>"
    by (simp add: world_two_pages_def)
  have k: "files_list_folder_continue world_two_pages ''c1'' =
          Some \<lparr>entries = [file_b], has_more = False, cursor = ''c2''\<rparr>"
    by (simp add: world_two_pages_def)
  show ?case
    by (simp add: l k c Suc.IH del: copy_entries.simps)
qed

subsection \<open>When the Enumerator pushes\<close>

lemma ls_entry_push_cases:
  assumes "ls_entry a e (Some h) s = Ok q' s'"
  shows "q' = Some h \<or>
         (\<exists>p n sm cm blob.
            getattr e ''path_display'' = Some (PStr p) \<and> \<not> excluded p (excludePaths a) \<and>
            getattr e ''size'' = Some (PInt n) \<and>
            getattr e ''server_modified'' = Some (PDatetime sm) \<and>
            getattr e ''client_modified'' = Some (PDatetime cm) \<and>
            work_item e = Inr blob \<and> q' = Some (queue_push h blob))"
proof -
  from assms obtain p where p: "getattr e ''path_display'' = Some (PStr p)"
    by (auto simp: ls_entry_def split: option.splits pyval.splits)
  show ?thesis
  proof (cases "excluded p (excludePaths a)")
    case True
    with assms p show ?thesis by (simp add: ls_entry_def)
  next
    case False
    show ?thesis
    proof (cases "getattr e ''size''")
      case None
      with assms p False show ?thesis by (simp add: ls_entry_def getattr_default_def)
    next
      case (Some v)
      with assms p False obtain n where n: "v = PInt n"
        by (cases v) (simp_all add: ls_entry_def getattr_default_def)
      from assms p False Some n obtain blob where b: "work_item e = Inr blob"
        and q: "q' = Some (queue_push h blob)"
        by (auto simp: ls_entry_def getattr_default_def Let_def split: sum.splits)
      from b obtain sm cm where "getattr e ''server_modified'' = Some (PDatetime sm)"
        "getattr e ''client_modified'' = Some (PDatetime cm)"
        by (auto simp: work_item_def json_serial_def split: option.splits pyval.splits sum.splits)
      with p False Some n b q show ?thesis by blast
    qed
  qed
qed

subsection \<open>The loops of \<^verbatim>\<open>get\<close> return\<close>

text \<open>
  The queue-driven loop always comes to an end with the rounds \<^const>\<open>get\<close> grants it,
  and the direct loop ends after a page that announces no more.
\<close>

lemma get_from_queue_returns:
  "length (persisted s name) < n \<Longrightarrow> get_from_queue n w name a s \<noteq> None"
proof (induction n arbitrary: a s)
  case 0
  then show ?case by simp
next
  case (Suc n)
  let ?h = "\<lparr>qname = name, buffered = []\<rparr>"
  show ?case
  proof (cases "persisted s name")
    case Nil
    then show ?thesis
      by (simp add: get_queue_def queue_open_def queue_pop_def persisted_def)
  next
    case (Cons blob rest)
    let ?s2 = "s\<lparr>queues := (queues s)(name \<mapsto> rest)\<rparr>"
    show ?thesis
    proof (cases "blob = []")
      case True
      with Cons show ?thesis
        by (simp add: get_queue_def queue_open_def queue_pop_def persisted_def)
    next
      case False
      show ?thesis
      proof (cases "parse_entry blob")
        case (Inl x)
        with Cons False show ?thesis
          by (simp add: get_queue_def queue_open_def queue_pop_def persisted_def)
      next
        case (Inr e)
        note step = get_from_queue_step [OF Cons False Inr, of n w a]
        show ?thesis
        proof (cases "copy_dropbox_file w a e ?s2")
          case (Ok a' s3)
          from copy_dropbox_file_queues [OF Ok] have "queues s3 = queues ?s2" by simp
          then have "persisted (queue_close ?h s3) name = rest"
            by (simp add: queue_close_def persisted_def)
          with Suc.prems Cons have "length (persisted (queue_close ?h s3) name) < n" by simp
          from Suc.IH [OF this, of a'] show ?thesis unfolding step Ok by simp
        qed (simp_all add: step del: get_from_queue.simps)
      qed
    qed
  qed
qed

lemma get_direct_last_page:
  assumes "files_list_folder w (src_path a) (opt_r a) = Some files" and "\<not> has_more files"
    and "copy_entries w a (entries files) s = Ok a' s'"
  shows "get_direct (Suc n) w a s = Some (Ok () s')"
  using assms by simp

lemma get_queue_mode_returns:
  assumes "pullFilesFromQueue a = Some name" and "name \<noteq> []"
  shows "get n w a s \<noteq> None"
proof (cases "connect_to_dropbox w a s")
  case (Ok u s1)
  have "get_from_queue (Suc (length (persisted s1 name))) w name a s1 \<noteq> None"
    by (rule get_from_queue_returns) simp
  with Ok assms show ?thesis by (simp add: get_def del: get_from_queue.simps)
qed (simp_all add: get_def)

subsection \<open>The concrete inputs\<close>

lemma work_item_file_a: "work_item file_a = Inr blob_a"
  by code_simp

lemma work_item_file_b: "work_item file_b = Inr blob_b"
  by code_simp

lemma json_loads_blob_a: "json_loads blob_a = Some (Object item_a)"
  by code_simp

lemma json_loads_blob_b: "json_loads blob_b = Some (Object item_b)"
  by code_simp

lemma isoformat_a:
  "isoformat \<lparr>year = 2020, month = 2, day = 29, hour = 10, minute = 30, second = 15,
     microsecond = 0\<rparr> = ''2020-02-29T10:30:15''"
  "isoformat \<lparr>year = 2019, month = 12, day = 31, hour = 23, minute = 59, second = 59,
     microsecond = 0\<rparr> = ''2019-12-31T23:59:59''"
  by code_simp+

section \<open>The Transfer Executor skips empty files and directories\<close>

text \<open>
  C8. An entry whose size is zero or absent: \<^verbatim>\<open>copy_dropbox_file\<close> prints the skip
  message and returns normally with the arguments as they were; the directories and the
  files on the local disk (and with them every timestamp) and the queues are what they
  were, so nothing was created, downloaded or touched.
\<close>

theorem copy_dropbox_file_skips_empty:
  assumes "getattr e ''size'' = None \<or> getattr e ''size'' = Some (PInt 0)"
    and "getattr e ''path_display'' = Some (PStr p)"
  shows "\<exists>s'. copy_dropbox_file w a e s = Ok a s' \<and>
           stdout s' = stdout s @ [Msg_skipping p] \<and>
           local_dirs s' = local_dirs s \<and> local_files s' = local_files s \<and>
           queues s' = queues s"
  using assms by (auto simp: copy_dropbox_file_def getattr_default_def print_def)

theorem copy_dropbox_file_skips_empty_witness:
  "(getattr folder_docs ''size'' = None \<or> getattr folder_docs ''size'' = Some (PInt 0)) \<and>
   getattr folder_docs ''path_display'' = Some (PStr ''/docs'') \<and>
   (\<exists>s'. copy_dropbox_file world_ok args_get folder_docs state_empty = Ok args_get s' \<and>
      stdout s' = stdout state_empty @ [Msg_skipping ''/docs''] \<and>
      local_dirs s' = local_dirs state_empty \<and> local_files s' = local_files state_empty \<and>
      queues s' = queues state_empty)"
proof -
  have a: "getattr folder_docs ''size'' = None \<or> getattr folder_docs ''size'' = Some (PInt 0)"
    by (simp add: folder_docs_def getattr_def)
  have b: "getattr folder_docs ''path_display'' = Some (PStr ''/docs'')"
    by (simp add: folder_docs_def getattr_def)
  from copy_dropbox_file_skips_empty [OF a b, of world_ok args_get state_empty] a b
  show ?thesis by blast
qed

section \<open>The Queue Inspector without a queue name\<close>

text \<open>
  C10. \<^verbatim>\<open>peek\<close> without \<^verbatim>\<open>--queueName\<close> returns at once: the result is the state it
  was called in, so no queue was opened or changed and nothing was printed.
\<close>

theorem peek_without_name_is_noop:
  "queueName a = None \<Longrightarrow> peek a s = Ok () s"
  by (simp add: peek_def)

theorem peek_without_name_is_noop_witness:
  "queueName args_get = None \<and> peek args_get state_empty = Ok () state_empty"
proof -
  have n: "queueName args_get = None" by (simp add: args_get_def)
  from peek_without_name_is_noop [OF n, of state_empty] n show ?thesis by simp
qed

section \<open>A failing transfer ends the run\<close>

text \<open>
  C6. An entry that is neither skipped nor excluded, for which the local directory cannot
  be created, or the download fails, or the timestamps cannot be read, converted or
  applied: \<^verbatim>\<open>copy_dropbox_file\<close> ends by \<^verbatim>\<open>sys.exit(1)\<close> without touching a queue.
  Nothing catches the exit: the loop over a listing page ends in the same state with
  the same status, whatever entries follow, and so does the loop of the direct mode;
  the queue-driven loop, which had popped this item, ends there too, and the items
  behind it are still in the queue.
\<close>

theorem transfer_failure_aborts_run:
  assumes "getattr e ''path_display'' = Some (PStr p)"
    and "truthy (getattr_default e ''size'' PNone)"
    and "\<not> excluded p (excludePaths a)"
    and "(\<not> path_exists s (dirname (dest_path a @ p)) \<and>
            (dirname (dest_path a @ p) = [] \<or> makedirs_fails w (dirname (dest_path a @ p))))
         \<or> remote_content w p = None
         \<or> (\<exists>x. entry_times w e = Inl x)
         \<or> utime_fails w (dest_path a @ p)"
  shows "\<exists>s'. copy_dropbox_file w a e s = Exit 1 s' \<and> queues s' = queues s \<and>
           copy_entries w a (e # es) s = Exit 1 s' \<and>
           (\<forall>files. files_list_folder w (src_path a) (opt_r a) = Some files \<and> entries files = e # es
              \<longrightarrow> get_direct (Suc n) w a s = Some (Exit 1 s')) \<and>
           (\<forall>s0 name blob rest. persisted s0 name = blob # rest \<and> blob \<noteq> [] \<and>
              parse_entry blob = Inr e \<and> s = s0\<lparr>queues := (queues s0)(name \<mapsto> rest)\<rparr>
              \<longrightarrow> get_from_queue (Suc n) w name a s0 = Some (Exit 1 s') \<and> persisted s' name = rest)"
proof -
  from copy_fails [OF assms] obtain s' where c: "copy_dropbox_file w a e s = Exit 1 s'" ..
  from copy_dropbox_file_queues [OF c] have q: "queues s' = queues s" by simp
  have d: "\<forall>files. files_list_folder w (src_path a) (opt_r a) = Some files \<and> entries files = e # es
              \<longrightarrow> get_direct (Suc n) w a s = Some (Exit 1 s')"
    using c by simp
  have g: "\<forall>s0 name blob rest. persisted s0 name = blob # rest \<and> blob \<noteq> [] \<and>
              parse_entry blob = Inr e \<and> s = s0\<lparr>queues := (queues s0)(name \<mapsto> rest)\<rparr>
              \<longrightarrow> get_from_queue (Suc n) w name a s0 = Some (Exit 1 s') \<and> persisted s' name = rest"
  proof (intro allI impI, elim conjE)
    fix s0 name blob rest
    assume p: "persisted s0 name = blob # rest" "blob \<noteq> []" "parse_entry blob = Inr e"
      and s: "s = s0\<lparr>queues := (queues s0)(name \<mapsto> rest)\<rparr>"
    from get_from_queue_step [OF p, of n w a] c s
    have "get_from_queue (Suc n) w name a s0 = Some (Exit 1 s')" by simp
    moreover have "persisted s' name = rest" using q s by (simp add: persisted_def)
    ultimately show "get_from_queue (Suc n) w name a s0 = Some (Exit 1 s') \<and> persisted s' name = rest" ..
  qed
  from c q d g show ?thesis by simp
qed

theorem transfer_failure_aborts_run_witness:
  "getattr file_gone ''path_display'' = Some (PStr ''/docs/gone.txt'') \<and>
   truthy (getattr_default file_gone ''size'' PNone) \<and>
   \<not> excluded ''/docs/gone.txt'' (excludePaths args_get) \<and>
   remote_content world_ok ''/docs/gone.txt'' = None \<and>
   (\<exists>s'. copy_dropbox_file world_ok args_get file_gone state_empty = Exit 1 s' \<and>
      queues s' = queues state_empty \<and>
      copy_entries world_ok args_get [file_gone, file_a] state_empty = Exit 1 s')"
proof -
  have p: "getattr file_gone ''path_display'' = Some (PStr ''/docs/gone.txt'')"
    and t: "truthy (getattr_default file_gone ''size'' PNone)"
    by (simp_all add: file_gone_def getattr_def getattr_default_def)
  have x: "\<not> excluded ''/docs/gone.txt'' (excludePaths args_get)"
    by (simp add: args_get_def excluded_def)
  have r: "remote_content world_ok ''/docs/gone.txt'' = None"
    by (simp add: world_ok_def)
  from transfer_failure_aborts_run [OF p t x, of state_empty world_ok "[file_a]" 0] r
  obtain s' where "copy_dropbox_file world_ok args_get file_gone state_empty = Exit 1 s'"
    "queues s' = queues state_empty"
    "copy_entries world_ok args_get [file_gone, file_a] state_empty = Exit 1 s'"
    by blast
  with p t x r show ?thesis by blast
qed

section \<open>Excluded paths\<close>

text \<open>
  C7, as stated, fails for the Transfer Executor: it tests the size before the
  exclusion list, so a folder (or an empty file) below an excluded path gets the skip
  message and no exclusion notice.
\<close>

theorem executor_exclusion_notice_counterexample:
  "excluded ''/tmp/cache'' (excludePaths args_get) \<and>
   getattr folder_tmp ''path_display'' = Some (PStr ''/tmp/cache'') \<and>
   copy_dropbox_file world_ok args_get folder_tmp state_empty
     = Ok args_get (state_empty\<lparr>stdout := [Msg_skipping ''/tmp/cache'']\<rparr>) \<and>
   Msg_excluding ''/tmp/cache'' \<notin> set [Msg_skipping ''/tmp/cache'']"
  by (simp add: excluded_def args_get_def folder_tmp_def getattr_def copy_dropbox_file_def
      getattr_default_def print_def state_empty_def)

text \<open>
  C7, amended. An entry whose path starts with an exclusion prefix: the Enumerator
  prints the exclusion notice and leaves the queue handle and the disk as they were;
  the Transfer Executor returns normally with the arguments unchanged, having printed
  the exclusion notice when the size is a number other than zero and the skip message
  otherwise, and the local directories, the local files and the queues are what they
  were.
\<close>

theorem excluded_entry_is_skipped:
  assumes "getattr e ''path_display'' = Some (PStr p)" and "excluded p (excludePaths a)"
  shows "(\<exists>s'. ls_entry a e queue s = Ok queue s' \<and>
            stdout s' = stdout s @ [Msg_excluding p] \<and> queues s' = queues s) \<and>
         (\<exists>s'. copy_dropbox_file w a e s = Ok a s' \<and>
            stdout s' = stdout s @ [if truthy (getattr_default e ''size'' PNone)
                                    then Msg_excluding p else Msg_skipping p] \<and>
            local_dirs s' = local_dirs s \<and> local_files s' = local_files s \<and>
            queues s' = queues s)"
  using assms by (simp add: ls_entry_def copy_dropbox_file_def)

theorem excluded_entry_is_skipped_witness:
  "getattr file_tmp ''path_display'' = Some (PStr ''/tmp/x.bin'') \<and>
   excluded ''/tmp/x.bin'' (excludePaths args_ls) \<and>
   (\<exists>s'. ls_entry args_ls file_tmp (Some handle_q1) state_empty = Ok (Some handle_q1) s' \<and>
      stdout s' = [Msg_excluding ''/tmp/x.bin''] \<and> queues s' = queues state_empty) \<and>
   (\<exists>s'. copy_dropbox_file world_ok args_ls file_tmp state_empty = Ok args_ls s' \<and>
      stdout s' = [Msg_excluding ''/tmp/x.bin''] \<and> local_dirs s' = [] \<and>
      local_files s' = Map.empty \<and> queues s' = queues state_empty)"
proof -
  have p: "getattr file_tmp ''path_display'' = Some (PStr ''/tmp/x.bin'')"
    by (simp add: file_tmp_def getattr_def)
  have x: "excluded ''/tmp/x.bin'' (excludePaths args_ls)"
    by (simp add: args_ls_def args_get_def excluded_def)
  have t: "truthy (getattr_default file_tmp ''size'' PNone)"
    by (simp add: file_tmp_def getattr_def getattr_default_def)
  from excluded_entry_is_skipped [OF p x, of "Some handle_q1" state_empty world_ok] p x t
  show ?thesis by (simp add: state_empty_def)
qed

section \<open>What the Enumerator enqueues\<close>

text \<open>
  C2, as stated, fails: the Enumerator tests whether the entry has a size at all
  (\<^verbatim>\<open>getattr(entry, 'size', None) != None\<close>), so a file of size 0 is serialized and
  pushed.
\<close>

theorem enumerator_pushes_size_zero_counterexample:
  "getattr empty_file ''size'' = Some (PInt 0) \<and>
   (\<exists>blob s'. ls_entry args_ls empty_file (Some handle_q1) state_empty
       = Ok (Some (handle_q1\<lparr>buffered := [blob]\<rparr>)) s')"
  by (simp add: ls_entry_def empty_file_def getattr_def getattr_default_def args_ls_def
      args_get_def excluded_def work_item_def json_serial_def json_dumps_def dumps_value_def
      queue_push_def handle_q1_def)

text \<open>
  C2, amended. With a queue sink, an entry is serialized and pushed only if it has a
  size attribute (a size of 0 included): an entry without size that matches no exclusion
  prefix is printed, with size 0, and the queue handle stays as it was; and whenever
  the handle is not what it was, the entry has a size and the handle has received
  exactly the serialized entry.
\<close>

theorem enumerator_pushes_only_sized_entries:
  assumes "getattr e ''path_display'' = Some (PStr p)" and "\<not> excluded p (excludePaths a)"
  shows "(getattr e ''size'' = None \<longrightarrow>
            ls_entry a e (Some h) s =
              Ok (Some h) (print (Msg_listing (PInt 0)
                 (getattr_default e ''client_modified'' (PStr ''-'')) (PStr p)) s)) \<and>
         (\<forall>q' s'. ls_entry a e (Some h) s = Ok q' s' \<and> q' \<noteq> Some h \<longrightarrow>
            (\<exists>n blob. getattr e ''size'' = Some (PInt n) \<and> work_item e = Inr blob \<and>
               q' = Some (queue_push h blob)))"
proof -
  have 1: "getattr e ''size'' = None \<longrightarrow>
            ls_entry a e (Some h) s =
              Ok (Some h) (print (Msg_listing (PInt 0)
                 (getattr_default e ''client_modified'' (PStr ''-'')) (PStr p)) s)"
    using assms by (simp add: ls_entry_def getattr_default_def)
  have 2: "\<forall>q' s'. ls_entry a e (Some h) s = Ok q' s' \<and> q' \<noteq> Some h \<longrightarrow>
            (\<exists>n blob. getattr e ''size'' = Some (PInt n) \<and> work_item e = Inr blob \<and>
               q' = Some (queue_push h blob))"
    using ls_entry_push_cases [of a e h s] by blast
  from 1 2 show ?thesis ..
qed

theorem enumerator_pushes_only_sized_entries_witness:
  "getattr folder_docs ''path_display'' = Some (PStr ''/docs'') \<and>
   \<not> excluded ''/docs'' (excludePaths args_ls) \<and>
   getattr folder_docs ''size'' = None \<and>
   ls_entry args_ls folder_docs (Some handle_q1) state_empty =
     Ok (Some handle_q1) (print (Msg_listing (PInt 0) (PStr ''-'') (PStr ''/docs'')) state_empty)"
proof -
  have p: "getattr folder_docs ''path_display'' = Some (PStr ''/docs'')"
    and n: "getattr folder_docs ''size'' = None"
    and c: "getattr_default folder_docs ''client_modified'' (PStr ''-'') = PStr ''-''"
    by (simp_all add: folder_docs_def getattr_def getattr_default_def)
  have x: "\<not> excluded ''/docs'' (excludePaths args_ls)"
    by (simp add: args_ls_def args_get_def excluded_def)
  from enumerator_pushes_only_sized_entries [OF p x, of handle_q1 state_empty] p x n c
  show ?thesis by simp
qed

section \<open>The Queue Inspector drains the queue\<close>

text \<open>
  C3. \<^verbatim>\<open>peek\<close> with a queue name, in a fresh process, on a queue whose items are Work
  Items (JSON objects with a \<^verbatim>\<open>path_display\<close>): it returns normally, has printed the
  \<^verbatim>\<open>path_display\<close> values of all items in queue order and nothing else, and has left
  the queue empty; an empty queue gets the notice \<^verbatim>\<open>queue not found\<close> and no path.
  With the other value of \<^verbatim>\<open>--flush\<close> the outcome is the same state: the flag decides
  only whether the drained handle is closed.
\<close>

theorem peek_drains_queue:
  assumes "queueName a = Some name" and "name \<noteq> []"
    and "persisted s name = items" and "FakeFileList_entries s = []"
    and "list_all2 (\<lambda>blob v. \<exists>d. json_loads blob = Some (Object d) \<and>
                        map_of d ''path_display'' = Some v) items paths"
  shows "\<exists>s'. peek a s = Ok () s' \<and>
           stdout s' = stdout s @ (if items = [] then [Msg_queue_not_found] else map Msg_path paths) \<and>
           persisted s' name = [] \<and>
           peek (a\<lparr>flush := \<not> flush a\<rparr>) s = Ok () s'"
proof -
  have ne: "[] \<notin> set items"
  proof
    assume "[] \<in> set items"
    with assms(5) obtain d where "json_loads [] = Some (Object d)"
      by (auto simp: list_all2_conv_all_nth in_set_conv_nth)
    then show False by (simp add: json_loads_Nil)
  qed
  let ?h = "\<lparr>qname = name, buffered = []\<rparr>"
  let ?s1 = "s\<lparr>queues := (queues s)(name \<mapsto> items)\<rparr>"
  have gq: "get_queue name s = (?h, ?s1)"
    using assms(3) by (simp add: get_queue_def queue_open_def)
  show ?thesis
  proof (cases "items = []")
    case True
    then have paths: "paths = []" using assms(5) by simp
    have "get_files_in_queue ?h ?s1 = (?h, print Msg_queue_not_found ?s1)"
      using True by (simp add: get_files_in_queue_def queue_len_def)
    then show ?thesis
      using assms(1,2,4) gq True
      by (simp add: peek_def queue_close_def print_def)
  next
    case False
    have "pop_all (Suc (length items)) ?h ?s1 =
       (?h, ?s1\<lparr>queues := (queues ?s1)(qname ?h \<mapsto> []),
               FakeFileList_entries := FakeFileList_entries ?s1 @ items\<rparr>)"
      using ne by (intro pop_all_drains) simp_all
    then have gf: "get_files_in_queue ?h ?s1 =
        (?h, s\<lparr>queues := (queues s)(name \<mapsto> []), FakeFileList_entries := items\<rparr>)"
      using False assms(4) by (simp add: get_files_in_queue_def queue_len_def)
    show ?thesis
      using assms(1,2) gq gf False print_paths_work_items [OF assms(5)]
      by (simp add: peek_def queue_close_def)
  qed
qed

theorem peek_drains_queue_witness:
  "queueName args_peek = Some ''q1'' \<and> persisted state_q1 ''q1'' = [blob_a, blob_b] \<and>
   FakeFileList_entries state_q1 = [] \<and>
   (\<exists>s'. peek args_peek state_q1 = Ok () s' \<and>
      stdout s' = [Msg_path (PStr ''/docs/a.txt''), Msg_path (PStr ''/docs/b.txt'')] \<and>
      persisted s' ''q1'' = [] \<and>
      peek (args_peek\<lparr>flush := True\<rparr>) state_q1 = Ok () s')"
proof -
  have n: "queueName args_peek = Some ''q1''" and f: "\<not> flush args_peek"
    by (simp_all add: args_peek_def args_get_def)
  have q: "persisted state_q1 ''q1'' = [blob_a, blob_b]"
    and e: "FakeFileList_entries state_q1 = []" and o: "stdout state_q1 = []"
    by (simp_all add: state_q1_def state_empty_def persisted_def)
  have w: "list_all2 (\<lambda>blob v. \<exists>d. json_loads blob = Some (Object d) \<and>
              map_of d ''path_display'' = Some v)
            [blob_a, blob_b] [PStr ''/docs/a.txt'', PStr ''/docs/b.txt'']"
    by (simp add: json_loads_blob_a json_loads_blob_b item_a_def item_b_def)
  have b: "blob_a # [blob_b] \<noteq> []" by simp
  from peek_drains_queue [OF n _ q e w] f o b n q e show ?thesis by simp
qed

section \<open>The list of \<^verbatim>\<open>get_files_in_queue\<close> is shared\<close>

text \<open>
  C9. \<^verbatim>\<open>get_files_in_queue\<close> appends to the class attribute \<^verbatim>\<open>FakeFileList.entries\<close>:
  after a second call the list is the list after the first call followed by the items
  of the second queue (up to an empty blob, where the loop stops).
\<close>

theorem get_files_in_queue_accumulates:
  "FakeFileList_entries (snd (get_files_in_queue h2 (snd (get_files_in_queue h1 s)))) =
     FakeFileList_entries (snd (get_files_in_queue h1 s)) @
       takeWhile (\<lambda>b. b \<noteq> [])
         (persisted (snd (get_files_in_queue h1 s)) (qname h2) @ buffered h2)"
  by (simp add: get_files_in_queue_def [of h2] pop_all_entries queue_len_def del: pop_all.simps)

theorem get_files_in_queue_accumulates_witness:
  "FakeFileList_entries (snd (get_files_in_queue handle_q1 state_q1)) = [blob_a, blob_b] \<and>
   FakeFileList_entries (snd (get_files_in_queue \<lparr>qname = ''q2'', buffered = [blob_b]\<rparr>
       (snd (get_files_in_queue handle_q1 state_q1)))) = [blob_a, blob_b, blob_b]"
proof -
  let ?s1 = "snd (get_files_in_queue handle_q1 state_q1)"
  have q: "queues state_q1 (qname handle_q1) = Some [blob_a, blob_b]" "buffered handle_q1 = []"
    by (simp_all add: state_q1_def handle_q1_def)
  have ne: "[] \<notin> set [blob_a, blob_b]" by (simp add: blob_a_def blob_b_def)
  have "pop_all (Suc (length [blob_a, blob_b])) handle_q1 state_q1 =
      (handle_q1, state_q1\<lparr>queues := (queues state_q1)(qname handle_q1 \<mapsto> []),
         FakeFileList_entries := FakeFileList_entries state_q1 @ [blob_a, blob_b]\<rparr>)"
    by (rule pop_all_drains [OF q ne]) simp
  then have s1: "?s1 = state_q1\<lparr>queues := (queues state_q1)(''q1'' \<mapsto> []),
         FakeFileList_entries := [blob_a, blob_b]\<rparr>"
    by (simp add: get_files_in_queue_def queue_len_def persisted_def q
        handle_q1_def state_q1_def state_empty_def del: pop_all.simps)
  then have 1: "FakeFileList_entries ?s1 = [blob_a, blob_b]" by simp
  have 2: "persisted ?s1 ''q2'' = []"
    unfolding s1 by (simp add: state_q1_def state_empty_def persisted_def)
  have 3: "blob_b \<noteq> []" by (simp add: blob_b_def)
  from get_files_in_queue_accumulates [of "\<lparr>qname = ''q2'', buffered = [blob_b]\<rparr>" handle_q1 state_q1]
    1 2 3 show ?thesis by simp
qed

section \<open>The direct mode on a listing of two pages\<close>

text \<open>
  C1 is what the loop should do and does not. On a listing of two pages (the first
  with \<^verbatim>\<open>has_more\<close> set) every round of the direct mode asks for the first page again,
  so the second page is never processed and no number of rounds brings the loop to its
  end: the result is \<open>None\<close> for every supply of rounds.
\<close>

theorem direct_mode_never_reaches_second_page:
  "\<forall>n. get_direct n world_two_pages args_get state_empty = None \<and>
       get n world_two_pages args_get state_empty = None"
proof
  fix n
  have c: "\<And>s. connect_to_dropbox world_two_pages args_get s
         = Ok () (print (Msg_connected ''me@example.org'') s)"
    by (simp add: connect_to_dropbox_def world_two_pages_def world_ok_def args_get_def)
  have p: "pullFilesFromQueue args_get = None" by (simp add: args_get_def)
  show "get_direct n world_two_pages args_get state_empty = None \<and>
       get n world_two_pages args_get state_empty = None"
    by (simp add: get_def c p get_direct_never_returns)
qed

section \<open>A Work Item on its way through the queue\<close>

text \<open>
  C5. Whenever the Enumerator pushes for an entry, the entry has a path, a size and two
  datetimes, and the blob pushed is ASCII text (so UTF-8 leaves it as it is) that
  \<^verbatim>\<open>json.loads\<close> reads as the object with exactly the keys \<^verbatim>\<open>path_display\<close>,
  \<^verbatim>\<open>size\<close>, \<^verbatim>\<open>server_modified\<close>, \<^verbatim>\<open>client_modified\<close> and the values serialized
  from the entry; \<^verbatim>\<open>get\<close> reads it as the tuple with these four attributes. Pushed
  and closed, the blob is the last item of the reopened queue, and the item popped from
  it when the queue was empty before.
\<close>

theorem work_item_round_trip:
  assumes "ls_entry a e (Some h) s = Ok q' s'" and "q' \<noteq> Some h"
  shows "\<exists>blob p n sm cm item.
           q' = Some (queue_push h blob) \<and>
           getattr e ''path_display'' = Some (PStr p) \<and> getattr e ''size'' = Some (PInt n) \<and>
           getattr e ''server_modified'' = Some (PDatetime sm) \<and>
           getattr e ''client_modified'' = Some (PDatetime cm) \<and>
           item = [(''path_display'', PStr p), (''size'', PInt n),
                   (''server_modified'', PStr (isoformat sm)),
                   (''client_modified'', PStr (isoformat cm))] \<and>
           list_all ascii blob \<and>
           json_loads blob = Some (Object item) \<and> parse_entry blob = Inr item \<and>
           (\<forall>name st h1 s1 h2 s2. get_queue name st = (h1, s1) \<and>
              get_queue name (queue_close (queue_push h1 blob) s1) = (h2, s2) \<longrightarrow>
                persisted s2 name = persisted st name @ [blob] \<and>
                (persisted st name = [] \<longrightarrow> fst (queue_pop h2 s2) = Some blob))"
proof -
  from ls_entry_push_cases [OF assms(1)] assms(2)
  obtain p n sm cm blob where p: "getattr e ''path_display'' = Some (PStr p)"
    and n: "getattr e ''size'' = Some (PInt n)"
    and sm: "getattr e ''server_modified'' = Some (PDatetime sm)"
    and cm: "getattr e ''client_modified'' = Some (PDatetime cm)"
    and w: "work_item e = Inr blob" and q: "q' = Some (queue_push h blob)"
    by blast
  define item where "item = [(''path_display'', PStr p), (''size'', PInt n),
                   (''server_modified'', PStr (isoformat sm)),
                   (''client_modified'', PStr (isoformat cm))]"
  from work_item_text [OF p n sm cm] w have d: "json_dumps item = Some blob"
    by (auto simp: item_def)
  have a: "list_all ascii blob" by (rule ascii_json_dumps [OF d])
  have "distinct (map fst item)" by (simp add: item_def)
  from json_loads_dumps [OF d this] have l: "json_loads blob = Some (Object item)" .
  have pe: "parse_entry blob = Inr item"
    using four_fields_ok by (simp add: parse_entry_def l) (simp add: item_def)
  have r: "\<forall>name st h1 s1 h2 s2. get_queue name st = (h1, s1) \<and>
              get_queue name (queue_close (queue_push h1 blob) s1) = (h2, s2) \<longrightarrow>
                persisted s2 name = persisted st name @ [blob] \<and>
                (persisted st name = [] \<longrightarrow> fst (queue_pop h2 s2) = Some blob)"
    by (auto simp: get_queue_def queue_open_def queue_close_def queue_push_def queue_pop_def
        persisted_def)
  from q p n sm cm item_def a l pe r show ?thesis by blast
qed

theorem work_item_round_trip_witness:
  "ls_entry args_ls file_a (Some handle_q1) state_empty =
     Ok (Some (queue_push handle_q1 blob_a))
        (print (Msg_listing (PInt 5) (PDatetime \<lparr>year = 2019, month = 12, day = 31, hour = 23,
           minute = 59, second = 59, microsecond = 0\<rparr>) (PStr ''/docs/a.txt'')) state_empty) \<and>
   Some (queue_push handle_q1 blob_a) \<noteq> Some handle_q1 \<and>
   json_loads blob_a = Some (Object item_a) \<and> parse_entry blob_a = Inr item_a \<and>
   list_all ascii blob_a"
proof -
  let ?s = "print (Msg_listing (PInt 5) (PDatetime \<lparr>year = 2019, month = 12, day = 31, hour = 23,
           minute = 59, second = 59, microsecond = 0\<rparr>) (PStr ''/docs/a.txt'')) state_empty"
  have g: "getattr file_a ''path_display'' = Some (PStr ''/docs/a.txt'')"
    "getattr file_a ''size'' = Some (PInt 5)"
    "getattr file_a ''client_modified'' = Some (PDatetime \<lparr>year = 2019, month = 12, day = 31,
       hour = 23, minute = 59, second = 59, microsecond = 0\<rparr>)"
    "getattr file_a ''server_modified'' = Some (PDatetime \<lparr>year = 2020, month = 2, day = 29,
       hour = 10, minute = 30, second = 15, microsecond = 0\<rparr>)"
    by (simp_all add: file_a_def getattr_def)
  have x: "\<not> excluded ''/docs/a.txt'' (excludePaths args_ls)"
    by (simp add: args_ls_def args_get_def excluded_def)
  have l: "ls_entry args_ls file_a (Some handle_q1) state_empty
             = Ok (Some (queue_push handle_q1 blob_a)) ?s"
    using g x by (simp add: ls_entry_def getattr_default_def work_item_file_a)
  have ne: "Some (queue_push handle_q1 blob_a) \<noteq> Some handle_q1"
    by (simp add: queue_push_def handle_q1_def)
  from work_item_round_trip [OF l ne]
  obtain blob p n sm cm item where b: "Some (queue_push handle_q1 blob_a) = Some (queue_push handle_q1 blob)"
    and i: "getattr file_a ''path_display'' = Some (PStr p)" "getattr file_a ''size'' = Some (PInt n)"
      "getattr file_a ''server_modified'' = Some (PDatetime sm)"
      "getattr file_a ''client_modified'' = Some (PDatetime cm)"
      "item = [(''path_display'', PStr p), (''size'', PInt n),
                   (''server_modified'', PStr (isoformat sm)),
                   (''client_modified'', PStr (isoformat cm))]"
    and r: "list_all ascii blob" "json_loads blob = Some (Object item)" "parse_entry blob = Inr item"
    by blast
  from b have "blob = blob_a" by (simp add: queue_push_def handle_q1_def)
  moreover from i g have "p = ''/docs/a.txt''" "n = 5"
    "sm = \<lparr>year = 2020, month = 2, day = 29, hour = 10, minute = 30, second = 15,
       microsecond = 0\<rparr>"
    "cm = \<lparr>year = 2019, month = 12, day = 31, hour = 23, minute = 59, second = 59,
       microsecond = 0\<rparr>"
    by simp_all
  with i(5) have "item = item_a" by (simp add: item_a_def isoformat_a)
  ultimately show ?thesis using l ne r by simp
qed

section \<open>The timestamps of a downloaded file\<close>

text \<open>
  C4. An entry that is neither skipped nor excluded, whose directory exists or was
  created and whose download succeeded; \<^verbatim>\<open>server_modified\<close> and \<^verbatim>\<open>client_modified\<close>
  are each a datetime, or the text \<^verbatim>\<open>YYYY-MM-DDTHH:MM:SS\<close> of a datetime (what
  \<^verbatim>\<open>isoformat\<close> writes for a valid datetime without microseconds). If both datetimes
  have a POSIX time stamp and \<^verbatim>\<open>os.utime\<close> is not refused, the call returns normally
  and the local file has the access time of \<^verbatim>\<open>server_modified\<close> and the modification
  time of \<^verbatim>\<open>client_modified\<close>.
\<close>

theorem copy_sets_times:
  assumes "getattr e ''path_display'' = Some (PStr p)"
    and "truthy (getattr_default e ''size'' PNone)"
    and "\<not> excluded p (excludePaths a)"
    and "make_local_dir w (dirname (dest_path a @ p)) s = Inr s1"
    and "remote_content w p = Some c"
    and "getattr e ''server_modified'' = Some sm" and "getattr e ''client_modified'' = Some cm"
    and "sm = PDatetime d1 \<or> sm = PStr (isoformat d1) \<and> valid_datetime d1 \<and> microsecond d1 = 0"
    and "cm = PDatetime d2 \<or> cm = PStr (isoformat d2) \<and> valid_datetime d2 \<and> microsecond d2 = 0"
    and "timestamp w d1 = Some t1" and "timestamp w d2 = Some t2"
    and "\<not> utime_fails w (dest_path a @ p)"
  shows "\<exists>a' s'. copy_dropbox_file w a e s = Ok a' s' \<and>
           local_files s' (dest_path a @ p) = Some \<lparr>content = c, times = Some (t1, t2)\<rparr>"
proof -
  let ?dest = "dest_path a @ p"
  let ?a = "if src_path a = ''/'' then a\<lparr>src_path := []\<rparr> else a"
  let ?s2 = "print (Msg_downloading p ?dest) s1"
  let ?s3 = "?s2\<lparr>local_files := (local_files ?s2)(?dest \<mapsto> \<lparr>content = c, times = None\<rparr>)\<rparr>"
  let ?s4 = "?s3\<lparr>local_files := (local_files ?s3)(?dest \<mapsto> \<lparr>content = c, times = Some (t1, t2)\<rparr>)\<rparr>"
  have et: "entry_times w e = Inr (t1, t2)"
    by (rule entry_times_accepts [OF assms(6-11)])
  have dl: "download_to_file w p ?dest ?s2 = Some ?s3"
    using assms(5) by (simp add: download_to_file_def)
  have ut: "utime w ?dest (t1, t2) ?s3 = Some ?s4"
    using assms(12) by (simp add: utime_def)
  have st: "set_times w e ?dest ?a ?s3 = Ok ?a ?s4"
    unfolding set_times_def et using ut by simp
  have dw: "download w e p ?dest ?a s1 = Ok ?a ?s4"
    unfolding download_def Let_def dl using st by simp
  have "copy_dropbox_file w a e s = download w e p ?dest ?a s1"
    using assms(1-4) by (simp add: copy_dropbox_file_def Let_def split: sum.splits)
  with dw have "copy_dropbox_file w a e s = Ok ?a ?s4" by simp
  moreover have "local_files ?s4 ?dest = Some \<lparr>content = c, times = Some (t1, t2)\<rparr>" by simp
  ultimately show ?thesis by blast
qed

theorem copy_sets_times_witness:
  "getattr item_a ''server_modified'' = Some (PStr ''2020-02-29T10:30:15'') \<and>
   getattr file_a ''client_modified'' = Some (PDatetime \<lparr>year = 2019, month = 12, day = 31,
       hour = 23, minute = 59, second = 59, microsecond = 0\<rparr>) \<and>
   (\<exists>a' s'. copy_dropbox_file world_ok args_get
        [(''path_display'', PStr ''/docs/a.txt''), (''size'', PInt 5),
         (''server_modified'', PStr ''2020-02-29T10:30:15''),
         (''client_modified'', PDatetime \<lparr>year = 2019, month = 12, day = 31,
             hour = 23, minute = 59, second = 59, microsecond = 0\<rparr>)] state_empty = Ok a' s' \<and>
      local_files s' ''/backup/docs/a.txt'' = Some \<lparr>content = ''hello'', times = Some (37815, 86399)\<rparr>)"
proof -
  let ?d1 = "\<lparr>year = 2020, month = 2, day = 29, hour = 10, minute = 30, second = 15,
     microsecond = 0\<rparr>"
  let ?d2 = "\<lparr>year = 2019, month = 12, day = 31, hour = 23, minute = 59, second = 59,
     microsecond = 0\<rparr>"
  let ?e = "[(''path_display'', PStr ''/docs/a.txt''), (''size'', PInt 5),
         (''server_modified'', PStr ''2020-02-29T10:30:15''),
         (''client_modified'', PDatetime ?d2)]"
  have g: "getattr ?e ''path_display'' = Some (PStr ''/docs/a.txt'')"
    "truthy (getattr_default ?e ''size'' PNone)"
    "getattr ?e ''server_modified'' = Some (PStr ''2020-02-29T10:30:15'')"
    "getattr ?e ''client_modified'' = Some (PDatetime ?d2)"
    by (simp_all add: getattr_def getattr_default_def)
  have x: "\<not> excluded ''/docs/a.txt'' (excludePaths args_get)"
    by (simp add: args_get_def excluded_def)
  have dp: "dest_path args_get = ''/backup''" by (simp add: args_get_def)
  obtain s1 where m: "make_local_dir world_ok (dirname (dest_path args_get @ ''/docs/a.txt'')) state_empty = Inr s1"
    using make_local_dir_ok [of "''/backup/docs''" world_ok state_empty]
    by (auto simp: dp dirname_a world_ok_simps simp del: append.simps)
  have v: "valid_datetime ?d1"
    by (simp add: valid_datetime_def days_in_month_def is_leap_def)
  have sm: "PStr ''2020-02-29T10:30:15'' = PDatetime ?d1 \<or>
      PStr ''2020-02-29T10:30:15'' = PStr (isoformat ?d1) \<and> valid_datetime ?d1 \<and> microsecond ?d1 = 0"
    using v by (simp add: isoformat_a)
  have cm: "PDatetime ?d2 = PDatetime ?d2 \<or>
      PDatetime ?d2 = PStr (isoformat ?d2) \<and> valid_datetime ?d2 \<and> microsecond ?d2 = 0"
    by simp
  have t: "timestamp world_ok ?d1 = Some 37815" "timestamp world_ok ?d2 = Some 86399"
    by (simp_all add: world_ok_simps seconds_of_day_def)
  have u: "\<not> utime_fails world_ok (dest_path args_get @ ''/docs/a.txt'')"
    by (simp add: world_ok_simps)
  from copy_sets_times [OF g(1) g(2) x m world_ok_simps(1) g(3) g(4) sm cm t u]
  have "\<exists>a' s'. copy_dropbox_file world_ok args_get ?e state_empty = Ok a' s' \<and>
      local_files s' (dest_path args_get @ ''/docs/a.txt'')
        = Some \<lparr>content = ''hello'', times = Some (37815, 86399)\<rparr>" .
  then show ?thesis
    by (simp add: dp item_a_def file_a_def getattr_def)
qed

end
